theory Spec2Isabelle
  imports Complex_Main "HOL-Library.Word"
begin

unbundle bit_operations_syntax

section \<open>The program: guetzli.cc, the ingestion front-end\<close>

subsection \<open>Constants, globals and results\<close>

type_synonym uint8_t = "8 word"
type_synonym uint32 = "32 word"

text \<open>\<^verbatim>\<open>std::string\<close> buffers and \<^verbatim>\<open>std::vector<uint8_t>\<close> are byte lists.\<close>

type_synonym bytes = "8 word list"

definition kDefaultJPEGQuality :: int where
  "kDefaultJPEGQuality = 95"

definition kBytesPerPixel :: int where
  "kBytesPerPixel = 110"

definition kLowestMemusageMB :: int where
  "kLowestMemusageMB = 100"

definition kDefaultMemlimitMB :: int where
  "kDefaultMemlimitMB = 6000"

text \<open>
  The file-scope variables \<^verbatim>\<open>verbose\<close>, \<^verbatim>\<open>quality\<close>, \<^verbatim>\<open>memlimit_mb\<close> and
  \<^verbatim>\<open>blendOnBlack\<close>. They are set by the flag parser before any processor runs and only
  read afterwards, so the processors take them as an argument.
\<close>

record globals =
  verbose :: int
  quality :: int
  memlimit_mb :: int
  blendOnBlack :: bool

definition default_globals :: globals where
  "default_globals =
     \<lparr>verbose = 0, quality = kDefaultJPEGQuality, memlimit_mb = kDefaultMemlimitMB,
      blendOnBlack = True\<rparr>"

datatype ProcessResult = NotSupported | ProcessFailed | Sucess

subsection \<open>Alpha compositing\<close>

text \<open>
  \<^verbatim>\<open>static_cast<int>\<close> of a byte is \<open>uint\<close>; the products stay below \<open>255 * 255 + 128\<close>,
  far inside \<^verbatim>\<open>int\<close>, and both operands of \<^verbatim>\<open>/\<close> are non-negative, so C++'s truncating
  division is \<open>div\<close>. The conversion of the \<^verbatim>\<open>int\<close> result to \<^verbatim>\<open>uint8_t\<close> is
  \<open>word_of_int\<close> (reduction modulo 256).
\<close>

definition BlendOnBlack :: "uint8_t \<Rightarrow> uint8_t \<Rightarrow> uint8_t" where
  "BlendOnBlack val alpha = word_of_int ((uint val * uint alpha + 128) div 255)"

definition BlendOnWhite :: "uint8_t \<Rightarrow> uint8_t \<Rightarrow> uint8_t" where
  "BlendOnWhite val alpha =
     (if alpha < 1 then word_of_int (255 - ((uint val * uint alpha + 128) div 255))
      else val)"

definition Blend :: "globals \<Rightarrow> uint8_t \<Rightarrow> uint8_t \<Rightarrow> uint8_t" where
  "Blend g val alpha =
     (if blendOnBlack g then BlendOnBlack val alpha else BlendOnWhite val alpha)"

text \<open>
  The formula the specification gives for the white background at a partial alpha,
  written from the specification's words for comparison with \<open>BlendOnWhite\<close>.
\<close>

definition OnWhite_spec_formula :: "uint8_t \<Rightarrow> uint8_t \<Rightarrow> uint8_t" where
  "OnWhite_spec_formula sample alpha =
     word_of_int (255 - ((uint sample * uint alpha + 128) div 255))"

subsection \<open>Faults, checked \<^verbatim>\<open>int\<close> arithmetic and buffer accesses\<close>

text \<open>
  What ends the process instead of returning: a signed overflow of a 32-bit \<^verbatim>\<open>int\<close>
  and an access outside a buffer (both undefined behaviour in C++; the one read that
  \<^verbatim>\<open>ReadTIFF\<close> makes of the byte right behind its raster is modelled as a read of that
  byte, see \<open>pixel_byte\<close>), and the
  \<^verbatim>\<open>std::length_error\<close> of a \<^verbatim>\<open>resize\<close> whose \<^verbatim>\<open>int\<close> argument is negative (it
  converts to a \<^verbatim>\<open>size_t\<close> beyond \<^verbatim>\<open>max_size()\<close>; the exception is not caught).
\<close>

datatype fault = SignedOverflow | OutOfBounds | LengthError

definition bindE :: "fault + 'a \<Rightarrow> ('a \<Rightarrow> fault + 'b) \<Rightarrow> fault + 'b" where
  "bindE m f = (case m of Inl e \<Rightarrow> Inl e | Inr v \<Rightarrow> f v)"

definition INT_MAX :: int where
  "INT_MAX = 2147483647"

definition INT_MIN :: int where
  "INT_MIN = - 2147483648"

definition int32 :: "int \<Rightarrow> fault + int" where
  "int32 v = (if INT_MIN \<le> v \<and> v \<le> INT_MAX then Inr v else Inl SignedOverflow)"

definition imul :: "int \<Rightarrow> int \<Rightarrow> fault + int" where
  "imul a b = int32 (a * b)"

definition iadd :: "int \<Rightarrow> int \<Rightarrow> fault + int" where
  "iadd a b = int32 (a + b)"

text \<open>
  \<^verbatim>\<open>for (int i = 0; i < n; ++i) body\<close> with an \<^verbatim>\<open>int\<close> bound \<open>n\<close>: the body runs for
  \<open>i = 0, \<dots>, n - 1\<close> in this order, and stops at the first fault.
\<close>

primrec for_loop :: "nat \<Rightarrow> (nat \<Rightarrow> 's \<Rightarrow> fault + 's) \<Rightarrow> 's \<Rightarrow> fault + 's" where
  "for_loop 0 body s = Inr s"
| "for_loop (Suc n) body s = bindE (for_loop n body s) (body n)"

text \<open>
  \<^verbatim>\<open>rgb->resize(n)\<close> on the fresh, empty vector, \<open>n\<close> an \<^verbatim>\<open>int\<close>: the new elements
  are zero.
\<close>

definition resize :: "int \<Rightarrow> fault + bytes" where
  "resize n = (if n < 0 then Inl LengthError else Inr (replicate (nat n) 0))"

text \<open>
  \<^verbatim>\<open>row_out[off] = v\<close> where \<^verbatim>\<open>row_out = &(*rgb)[base]\<close>, and the read \<^verbatim>\<open>row_in[i]\<close>.
\<close>

definition store :: "int \<Rightarrow> int \<Rightarrow> uint8_t \<Rightarrow> bytes \<Rightarrow> fault + bytes" where
  "store base off v rgb =
     (let i = base + off
      in if 0 \<le> i \<and> i < int (length rgb) then Inr (rgb[nat i := v]) else Inl OutOfBounds)"

definition load :: "bytes \<Rightarrow> int \<Rightarrow> fault + uint8_t" where
  "load row_in i =
     (if 0 \<le> i \<and> i < int (length row_in) then Inr (row_in ! nat i) else Inl OutOfBounds)"

definition row_at :: "'a list \<Rightarrow> nat \<Rightarrow> fault + 'a" where
  "row_at row_pointers y =
     (if y < length row_pointers then Inr (row_pointers ! y) else Inl OutOfBounds)"

text \<open>\<^verbatim>\<open>memcpy(row_out, row_in, n)\<close> with \<^verbatim>\<open>row_out = &(*rgb)[base]\<close>.\<close>

definition memcpy_row :: "int \<Rightarrow> bytes \<Rightarrow> int \<Rightarrow> bytes \<Rightarrow> fault + bytes" where
  "memcpy_row base row_in n rgb =
     (if n < 0 \<or> base < 0 \<or> int (length row_in) < n \<or> int (length rgb) < base + n
      then Inl OutOfBounds
      else Inr (take (nat base) rgb @ take (nat n) row_in @ drop (nat (base + n)) rgb))"

subsection \<open>The PNG decoder\<close>

text \<open>
  What libpng hands back to \<^verbatim>\<open>ReadPNG\<close> after \<^verbatim>\<open>png_read_png\<close> with the transforms
  PACKING, EXPAND and STRIP_16: the image width and height (\<^verbatim>\<open>png_uint_32\<close>), the
  channel count (\<^verbatim>\<open>png_byte\<close>) and the row pointers. libpng itself is outside the
  source file; \<^verbatim>\<open>ReadPNG\<close> takes the library call as a parameter that yields \<open>None\<close>
  when a read structure cannot be created or libpng reports an error through
  \<^verbatim>\<open>longjmp\<close>.
\<close>

record png_image =
  png_image_width :: uint32
  png_image_height :: uint32
  png_channels :: uint8_t
  png_rows :: "bytes list"

text \<open>One row of \<^verbatim>\<open>case 1\<close> (grayscale).\<close>

definition ReadPNG_row1 :: "bytes list \<Rightarrow> int \<Rightarrow> nat \<Rightarrow> bytes \<Rightarrow> fault + bytes" where
  "ReadPNG_row1 row_pointers xsize y rgb =
     bindE (row_at row_pointers y) (\<lambda>row_in.
     bindE (bindE (imul 3 (int y)) (\<lambda>t. imul t xsize)) (\<lambda>row_out.
     for_loop (nat xsize) (\<lambda>x rgb.
       bindE (load row_in (int x)) (\<lambda>gray.
       bindE (imul 3 (int x)) (\<lambda>x3.
       bindE (bindE (iadd x3 0) (\<lambda>off. store row_out off gray rgb)) (\<lambda>rgb.
       bindE (bindE (iadd x3 1) (\<lambda>off. store row_out off gray rgb)) (\<lambda>rgb.
       bindE (iadd x3 2) (\<lambda>off. store row_out off gray rgb)))))) rgb))"

text \<open>One row of \<^verbatim>\<open>case 2\<close> (grayscale and alpha).\<close>

definition ReadPNG_row2 ::
  "globals \<Rightarrow> bytes list \<Rightarrow> int \<Rightarrow> nat \<Rightarrow> bytes \<Rightarrow> fault + bytes" where
  "ReadPNG_row2 g row_pointers xsize y rgb =
     bindE (row_at row_pointers y) (\<lambda>row_in.
     bindE (bindE (imul 3 (int y)) (\<lambda>t. imul t xsize)) (\<lambda>row_out.
     for_loop (nat xsize) (\<lambda>x rgb.
       bindE (bindE (imul 2 (int x)) (load row_in)) (\<lambda>v.
       bindE (bindE (bindE (imul 2 (int x)) (\<lambda>t. iadd t 1)) (load row_in)) (\<lambda>a.
       let gray = Blend g v a in
       bindE (imul 3 (int x)) (\<lambda>x3.
       bindE (bindE (iadd x3 0) (\<lambda>off. store row_out off gray rgb)) (\<lambda>rgb.
       bindE (bindE (iadd x3 1) (\<lambda>off. store row_out off gray rgb)) (\<lambda>rgb.
       bindE (iadd x3 2) (\<lambda>off. store row_out off gray rgb))))))) rgb))"

text \<open>One row of \<^verbatim>\<open>case 3\<close> (RGB): a \<^verbatim>\<open>memcpy\<close> of \<^verbatim>\<open>3 * (*xsize)\<close> bytes.\<close>

definition ReadPNG_row3 :: "bytes list \<Rightarrow> int \<Rightarrow> nat \<Rightarrow> bytes \<Rightarrow> fault + bytes" where
  "ReadPNG_row3 row_pointers xsize y rgb =
     bindE (row_at row_pointers y) (\<lambda>row_in.
     bindE (bindE (imul 3 (int y)) (\<lambda>t. imul t xsize)) (\<lambda>row_out.
     bindE (imul 3 xsize) (\<lambda>n. memcpy_row row_out row_in n rgb)))"

text \<open>One row of \<^verbatim>\<open>case 4\<close> (RGBA).\<close>

definition ReadPNG_row4 ::
  "globals \<Rightarrow> bytes list \<Rightarrow> int \<Rightarrow> nat \<Rightarrow> bytes \<Rightarrow> fault + bytes" where
  "ReadPNG_row4 g row_pointers xsize y rgb =
     bindE (row_at row_pointers y) (\<lambda>row_in.
     bindE (bindE (imul 3 (int y)) (\<lambda>t. imul t xsize)) (\<lambda>row_out.
     for_loop (nat xsize) (\<lambda>x rgb.
       bindE (imul 4 (int x)) (\<lambda>x4.
       bindE (bindE (iadd x4 3) (load row_in)) (\<lambda>alpha.
       bindE (imul 3 (int x)) (\<lambda>x3.
       bindE (bindE (bindE (iadd x4 0) (load row_in)) (\<lambda>v.
              bindE (iadd x3 0) (\<lambda>off. store row_out off (Blend g v alpha) rgb))) (\<lambda>rgb.
       bindE (bindE (bindE (iadd x4 1) (load row_in)) (\<lambda>v.
              bindE (iadd x3 1) (\<lambda>off. store row_out off (Blend g v alpha) rgb))) (\<lambda>rgb.
       bindE (bindE (iadd x4 2) (load row_in)) (\<lambda>v.
              bindE (iadd x3 2) (\<lambda>off. store row_out off (Blend g v alpha) rgb)))))))) rgb))"

text \<open>
  \<^verbatim>\<open>ReadPNG\<close>: \<open>Inr None\<close> is \<^verbatim>\<open>return false\<close>, \<open>Inr (Some (xsize, ysize, rgb))\<close> is
  \<^verbatim>\<open>return true\<close> with the three outputs, \<open>Inl\<close> is a fault. The conversion of a
  \<^verbatim>\<open>png_uint_32\<close> to \<^verbatim>\<open>int\<close> is \<open>sint\<close>.
\<close>

definition ReadPNG ::
  "globals \<Rightarrow> (bytes \<Rightarrow> png_image option) \<Rightarrow> bytes \<Rightarrow> fault + (int \<times> int \<times> bytes) option" where
  "ReadPNG g png_read_png data =
     (case png_read_png data of
        None \<Rightarrow> Inr None
      | Some png \<Rightarrow>
          let row_pointers = png_rows png;
              xsize = sint (png_image_width png);
              ysize = sint (png_image_height png)
          in bindE (bindE (bindE (imul 3 xsize) (\<lambda>t. imul t ysize)) resize) (\<lambda>rgb.
             let components = uint (png_channels png)
             in if components = 1 then
                  bindE (for_loop (nat ysize) (ReadPNG_row1 row_pointers xsize) rgb)
                    (\<lambda>rgb. Inr (Some (xsize, ysize, rgb)))
                else if components = 2 then
                  bindE (for_loop (nat ysize) (ReadPNG_row2 g row_pointers xsize) rgb)
                    (\<lambda>rgb. Inr (Some (xsize, ysize, rgb)))
                else if components = 3 then
                  bindE (for_loop (nat ysize) (ReadPNG_row3 row_pointers xsize) rgb)
                    (\<lambda>rgb. Inr (Some (xsize, ysize, rgb)))
                else if components = 4 then
                  bindE (for_loop (nat ysize) (ReadPNG_row4 g row_pointers xsize) rgb)
                    (\<lambda>rgb. Inr (Some (xsize, ysize, rgb)))
                else Inr None))"

subsection \<open>The TIFF decoder\<close>

text \<open>
  What libtiff hands back: the three tags read by \<^verbatim>\<open>TIFFGetField\<close> (a tag that is
  absent leaves the initial 0) and, when \<^verbatim>\<open>TIFFReadRGBAImageOriented\<close> succeeds, the
  \<^verbatim>\<open>uint32\<close> raster it filled; \<open>None\<close> there is its failure. The library call is a
  parameter of \<^verbatim>\<open>ReadTIFF\<close> that yields \<open>None\<close> when \<^verbatim>\<open>TIFFClientOpen\<close> fails.

  The last field is not libtiff's: it is the byte that lies in memory right behind the
  raster. \<^verbatim>\<open>ReadTIFF\<close> reads it, unchecked, as \<^verbatim>\<open>pixel[4]\<close> of the last pixel and goes on
  with whatever it holds.
\<close>

record tiff_image =
  tiff_IMAGEWIDTH :: uint32
  tiff_IMAGELENGTH :: uint32
  tiff_SAMPLESPERPIXEL :: uint32
  tiff_RGBAImage :: "uint32 list option"
  tiff_byte_behind_raster :: uint8_t

text \<open>
  \<^verbatim>\<open>pixel[k]\<close> where \<^verbatim>\<open>pixel = (const uint8_t*)&pixels[i]\<close>: byte \<open>k\<close> counted from the
  first byte of raster element \<open>i\<close>, on a little-endian machine (libtiff packs a pixel
  as \<^verbatim>\<open>R | G << 8 | B << 16 | A << 24\<close>). The raster was allocated with \<open>npixels\<close> elements;
  the first byte behind it is \<open>behind\<close>, and any access further out is a fault.
\<close>

definition pixel_byte ::
  "uint32 list \<Rightarrow> nat \<Rightarrow> uint8_t \<Rightarrow> nat \<Rightarrow> nat \<Rightarrow> fault + uint8_t" where
  "pixel_byte pixels npixels behind i k =
     (let j = i + k div 4
      in if j < npixels \<and> j < length pixels
         then Inr (ucast (drop_bit (8 * (k mod 4)) (pixels ! j)))
         else if j = npixels \<and> k mod 4 = 0 then Inr behind
         else Inl OutOfBounds)"

text \<open>
  One row of the branch \<^verbatim>\<open>components != 4\<close>. \<^verbatim>\<open>y * width\<close> is a \<^verbatim>\<open>uint32\<close> product and
  wraps.
\<close>

definition ReadTIFF_row3 ::
  "uint32 list \<Rightarrow> nat \<Rightarrow> uint8_t \<Rightarrow> uint32 \<Rightarrow> int \<Rightarrow> nat \<Rightarrow> bytes
     \<Rightarrow> fault + bytes" where
  "ReadTIFF_row3 pixels npixels behind width xsize y rgb =
     (let row_in = unat (word_of_nat y * width)
      in bindE (bindE (imul 3 (int y)) (\<lambda>t. imul t xsize)) (\<lambda>row_out.
         for_loop (nat xsize) (\<lambda>x rgb.
           bindE (imul 3 (int x)) (\<lambda>x3.
           bindE (bindE (pixel_byte pixels npixels behind (row_in + x) 0) (\<lambda>v.
                  bindE (iadd x3 0) (\<lambda>off. store row_out off v rgb))) (\<lambda>rgb.
           bindE (bindE (pixel_byte pixels npixels behind (row_in + x) 1) (\<lambda>v.
                  bindE (iadd x3 1) (\<lambda>off. store row_out off v rgb))) (\<lambda>rgb.
           bindE (pixel_byte pixels npixels behind (row_in + x) 2) (\<lambda>v.
                  bindE (iadd x3 2) (\<lambda>off. store row_out off v rgb)))))) rgb))"

text \<open>One pixel and one row of the branch \<^verbatim>\<open>components == 4\<close>; the alpha is \<^verbatim>\<open>pixel[4]\<close>.\<close>

definition ReadTIFF_pixel4 ::
  "globals \<Rightarrow> uint32 list \<Rightarrow> nat \<Rightarrow> uint8_t \<Rightarrow> nat \<Rightarrow> int \<Rightarrow> nat \<Rightarrow> bytes
     \<Rightarrow> fault + bytes" where
  "ReadTIFF_pixel4 g pixels npixels behind row_in row_out x rgb =
     bindE (pixel_byte pixels npixels behind (row_in + x) 4) (\<lambda>alpha.
     bindE (imul 3 (int x)) (\<lambda>x3.
     bindE (bindE (pixel_byte pixels npixels behind (row_in + x) 0) (\<lambda>v.
            bindE (iadd x3 0) (\<lambda>off. store row_out off (Blend g v alpha) rgb))) (\<lambda>rgb.
     bindE (bindE (pixel_byte pixels npixels behind (row_in + x) 1) (\<lambda>v.
            bindE (iadd x3 1) (\<lambda>off. store row_out off (Blend g v alpha) rgb))) (\<lambda>rgb.
     bindE (pixel_byte pixels npixels behind (row_in + x) 2) (\<lambda>v.
            bindE (iadd x3 2) (\<lambda>off. store row_out off (Blend g v alpha) rgb))))))"

definition ReadTIFF_row4 ::
  "globals \<Rightarrow> uint32 list \<Rightarrow> nat \<Rightarrow> uint8_t \<Rightarrow> uint32 \<Rightarrow> int \<Rightarrow> nat \<Rightarrow> bytes
     \<Rightarrow> fault + bytes" where
  "ReadTIFF_row4 g pixels npixels behind width xsize y rgb =
     (let row_in = unat (word_of_nat y * width)
      in bindE (bindE (imul 3 (int y)) (\<lambda>t. imul t xsize)) (\<lambda>row_out.
         for_loop (nat xsize)
           (ReadTIFF_pixel4 g pixels npixels behind row_in row_out) rgb))"

text \<open>
  \<^verbatim>\<open>for (int y = 0; y < height; ++y)\<close> with a \<^verbatim>\<open>uint32\<close> bound: the comparison is
  unsigned, so with \<open>height\<close> beyond \<open>INT_MAX\<close> the counter overflows after the
  iteration \<open>y = INT_MAX\<close>.
\<close>

definition for_loop_u32 :: "uint32 \<Rightarrow> (nat \<Rightarrow> 's \<Rightarrow> fault + 's) \<Rightarrow> 's \<Rightarrow> fault + 's" where
  "for_loop_u32 height body s =
     (if int (unat height) \<le> INT_MAX then for_loop (unat height) body s
      else bindE (for_loop (nat (INT_MAX + 1)) body s) (\<lambda>s. Inl SignedOverflow))"

text \<open>
  \<^verbatim>\<open>ReadTIFF\<close>: \<open>Inr (Inl msg)\<close> is \<^verbatim>\<open>return false\<close> after printing \<open>msg\<close> on stderr,
  \<open>Inr (Inr (xsize, ysize, rgb))\<close> is \<^verbatim>\<open>return true\<close>, \<open>Inl\<close> is a fault.
\<close>

definition ReadTIFF ::
  "globals \<Rightarrow> (bytes \<Rightarrow> tiff_image option) \<Rightarrow> bytes
     \<Rightarrow> fault + (string + int \<times> int \<times> bytes)" where
  "ReadTIFF g TIFFClientOpen data =
     (case TIFFClientOpen data of
        None \<Rightarrow> Inr (Inl ''[TIFF] TIFFClientOpen failed'')
      | Some tif \<Rightarrow>
          let width = tiff_IMAGEWIDTH tif;
              height = tiff_IMAGELENGTH tif;
              components = tiff_SAMPLESPERPIXEL tif;
              npixels = width * height;
              behind = tiff_byte_behind_raster tif
          in (case tiff_RGBAImage tif of
                None \<Rightarrow> Inr (Inl ''[TIFF] TIFFReadRGBAImage failed'')
              | Some pixels \<Rightarrow>
                  let xsize = sint width;
                      ysize = sint height
                  in bindE (bindE (bindE (imul 3 xsize) (\<lambda>t. imul t ysize)) resize) (\<lambda>rgb.
                     if components \<noteq> 4 then
                       bindE (for_loop_u32 height
                                (ReadTIFF_row3 pixels (unat npixels) behind width xsize) rgb)
                         (\<lambda>rgb. Inr (Inr (xsize, ysize, rgb)))
                     else
                       bindE (for_loop_u32 height
                                (ReadTIFF_row4 g pixels (unat npixels) behind width xsize) rgb)
                         (\<lambda>rgb. Inr (Inr (xsize, ysize, rgb))))))"

subsection \<open>The three processors\<close>

text \<open>
  The collaborators outside the source file: the two decoding libraries, the JPEG header
  parser \<^verbatim>\<open>guetzli::ReadJpeg\<close> in mode \<^verbatim>\<open>JPEG_READ_HEADER\<close> (it yields the header's
  width and height, or \<open>None\<close> when it returns false) and the two overloads of the
  encoder \<^verbatim>\<open>guetzli::Process\<close>, which get the quality the target score is computed
  from (\<open>None\<close> when they return false, else the bytes written to \<^verbatim>\<open>out_data\<close>).
\<close>

record extern =
  png_read_png :: "bytes \<Rightarrow> png_image option"
  TIFFClientOpen :: "bytes \<Rightarrow> tiff_image option"
  ReadJpeg :: "bytes \<Rightarrow> (int \<times> int) option"
  guetzli_Process_rgb :: "int \<Rightarrow> bytes \<Rightarrow> int \<Rightarrow> int \<Rightarrow> bytes option"
  guetzli_Process_jpeg :: "int \<Rightarrow> bytes \<Rightarrow> bytes option"

definition kPNGMagicBytes :: bytes where
  "kPNGMagicBytes = [0x89, 0x50, 0x4E, 0x47, 0x0D, 0x0A, 0x1A, 0x0A]"

text \<open>
  \<^verbatim>\<open>TIFF_BIGENDIAN\<close> and \<^verbatim>\<open>TIFF_LITTLEENDIAN\<close> of libtiff's \<^verbatim>\<open>tiff.h\<close>, and the two bytes
  of a \<^verbatim>\<open>ushort\<close> in memory (low byte first) that \<^verbatim>\<open>memcmp\<close> compares with.
\<close>

definition TIFF_BIGENDIAN :: "16 word" where
  "TIFF_BIGENDIAN = 0x4d4d"

definition TIFF_LITTLEENDIAN :: "16 word" where
  "TIFF_LITTLEENDIAN = 0x4949"

definition ushort_bytes :: "16 word \<Rightarrow> bytes" where
  "ushort_bytes w = [ucast w, ucast (drop_bit 8 w)]"

text \<open>
  A processor returns its \<^verbatim>\<open>ProcessResult\<close>, the \<^verbatim>\<open>out_data\<close> it wrote and the lines it
  printed on stderr, or a fault. The \<^verbatim>\<open>double\<close> arithmetic of the memory check is
  modelled in \<open>real\<close>: for 32-bit factors the comparison of the rounded \<^verbatim>\<open>double\<close> value
  with \<^verbatim>\<open>memlimit_mb\<close> has the same outcome as the exact one (below \<open>2 ^ 53\<close> nothing is
  rounded, and a product at or beyond \<open>2 ^ 53\<close> stays beyond \<open>2 ^ 51\<close>, which exceeds
  every \<^verbatim>\<open>memlimit_mb * (1 << 20)\<close>).
\<close>

type_synonym outcome = "ProcessResult \<times> bytes \<times> string list"

definition PngProcessor_Process :: "globals \<Rightarrow> extern \<Rightarrow> bytes \<Rightarrow> fault + outcome" where
  "PngProcessor_Process g ext in_data =
     (if length in_data \<ge> 8 \<and> take 8 in_data = kPNGMagicBytes then
        bindE (ReadPNG g (png_read_png ext) in_data) (\<lambda>r.
          case r of
            None \<Rightarrow> Inr (ProcessFailed, [], [''Error reading PNG data from input file''])
          | Some (xsize, ysize, rgb) \<Rightarrow>
              let pixels = real_of_int xsize * real_of_int ysize
              in if memlimit_mb g \<noteq> - 1
                    \<and> (pixels * real_of_int kBytesPerPixel / real_of_int (push_bit 20 1)
                          > real_of_int (memlimit_mb g)
                       \<or> memlimit_mb g < kLowestMemusageMB)
                 then Inr (ProcessFailed, [], [''Memory limit would be exceeded. Failing.''])
                 else (case guetzli_Process_rgb ext (quality g) rgb xsize ysize of
                         None \<Rightarrow> Inr (ProcessFailed, [], [''Guetzli processing failed''])
                       | Some out_data \<Rightarrow> Inr (Sucess, out_data, [])))
      else Inr (NotSupported, [], []))"

definition TiffProcessor_Process :: "globals \<Rightarrow> extern \<Rightarrow> bytes \<Rightarrow> fault + outcome" where
  "TiffProcessor_Process g ext in_data =
     (if length in_data \<ge> 2
         \<and> (take 2 in_data = ushort_bytes TIFF_BIGENDIAN
            \<or> take 2 in_data = ushort_bytes TIFF_LITTLEENDIAN) then
        bindE (ReadTIFF g (TIFFClientOpen ext) in_data) (\<lambda>r.
          case r of
            Inl msg \<Rightarrow>
              Inr (ProcessFailed, [], [msg, ''Error reading TIFF data from input file''])
          | Inr (xsize, ysize, rgb) \<Rightarrow>
              let pixels = real_of_int xsize * real_of_int ysize
              in if memlimit_mb g \<noteq> - 1
                    \<and> (pixels * real_of_int kBytesPerPixel / real_of_int (push_bit 20 1)
                          > real_of_int (memlimit_mb g)
                       \<or> memlimit_mb g < kLowestMemusageMB)
                 then Inr (ProcessFailed, [], [''Memory limit would be exceeded. Failing.''])
                 else (case guetzli_Process_rgb ext (quality g) rgb xsize ysize of
                         None \<Rightarrow> Inr (ProcessFailed, [], [''Guetzli processing failed''])
                       | Some out_data \<Rightarrow> Inr (Sucess, out_data, [])))
      else Inr (NotSupported, [], []))"

definition JpegProcessor_Process :: "globals \<Rightarrow> extern \<Rightarrow> bytes \<Rightarrow> fault + outcome" where
  "JpegProcessor_Process g ext in_data =
     (case ReadJpeg ext in_data of
        None \<Rightarrow> Inr (NotSupported, [], [''Error reading JPG data from input file''])
      | Some (width, height) \<Rightarrow>
          let pixels = real_of_int width * real_of_int height
          in if memlimit_mb g \<noteq> - 1
                \<and> (pixels * real_of_int kBytesPerPixel / real_of_int (push_bit 20 1)
                      > real_of_int (memlimit_mb g)
                   \<or> memlimit_mb g < kLowestMemusageMB)
             then Inr (ProcessFailed, [], [''Memory limit would be exceeded. Failing.''])
             else (case guetzli_Process_jpeg ext (quality g) in_data of
                     None \<Rightarrow> Inr (ProcessFailed, [], [''Guetzli processing failed''])
                   | Some out_data \<Rightarrow> Inr (Sucess, out_data, [])))"

subsection \<open>The dispatch loop of \<^verbatim>\<open>main\<close>\<close>

text \<open>
  \<^verbatim>\<open>for (int i = 0; i != 3; ++i)\<close> over the array \<^verbatim>\<open>processors\<close>, from index \<open>i\<close> on. It
  yields \<^verbatim>\<open>processed\<close>, \<^verbatim>\<open>out_data\<close>, the lines printed on stderr and, for the record,
  the indices of the processors whose \<^verbatim>\<open>Process\<close> was called.
\<close>

fun processors_loop ::
  "(bytes \<Rightarrow> fault + outcome) list \<Rightarrow> nat \<Rightarrow> bytes
     \<Rightarrow> fault + bool \<times> bytes \<times> string list \<times> nat list" where
  "processors_loop [] i in_data = Inr (False, [], [], [])"
| "processors_loop (processor # rest) i in_data =
     (case processor in_data of
        Inl f \<Rightarrow> Inl f
      | Inr (result, out_data, err) \<Rightarrow>
          if result \<noteq> NotSupported then Inr (result = Sucess, out_data, err, [i])
          else (case processors_loop rest (Suc i) in_data of
                  Inl f \<Rightarrow> Inl f
                | Inr (processed, out_data', err', called) \<Rightarrow>
                    Inr (processed, out_data', err @ err', i # called)))"

text \<open>
  \<^verbatim>\<open>main\<close> from the read of the input file on: the exit status, the contents written to
  the output file (if any), the lines on stderr and the processors called.
\<close>

definition guetzli_main ::
  "globals \<Rightarrow> extern \<Rightarrow> string \<Rightarrow> bytes
     \<Rightarrow> fault + int \<times> bytes option \<times> string list \<times> nat list" where
  "guetzli_main g ext filename in_data =
     bindE (processors_loop
              [PngProcessor_Process g ext, TiffProcessor_Process g ext,
               JpegProcessor_Process g ext] 0 in_data)
       (\<lambda>(processed, out_data, err, called).
          if processed then Inr (0, Some out_data, err, called)
          else Inr (2, None, err @ [''Unknown file format: '' @ filename], called))"

text \<open>
  The rejection rule of the specification's admission gate, written from the
  specification's words (\<open>estimated_mb = width * height * bytes_per_pixel / (1 << 20)\<close>;
  rejected if \<open>estimated_mb > ceiling\<close> or \<open>ceiling < minimum_floor_mb\<close>), for comparison
  with the check the three processors make.
\<close>

definition AdmissionGate_rejects :: "int \<Rightarrow> int \<Rightarrow> int \<Rightarrow> bool" where
  "AdmissionGate_rejects width height ceiling_mb =
     (real_of_int (width * height * 110) / 2 ^ 20 > real_of_int ceiling_mb
      \<or> ceiling_mb < 100)"

text \<open>
  The three output bytes of the pixel at column \<open>x\<close> of a row with the given channel
  count, written from the specification's words (1: the gray value replicated; 2: the
  gray value composited with the second channel as alpha, replicated; 3: copied; 4: each
  of R, G, B composited with the fourth channel as alpha), for comparison with
  \<^verbatim>\<open>ReadPNG\<close>. \<open>k\<close> is 0, 1 or 2 for R, G, B.
\<close>

definition png_pixel_spec :: "globals \<Rightarrow> int \<Rightarrow> bytes \<Rightarrow> nat \<Rightarrow> nat \<Rightarrow> uint8_t" where
  "png_pixel_spec g channels row x k =
     (if channels = 1 then row ! x
      else if channels = 2 then Blend g (row ! (2 * x)) (row ! (2 * x + 1))
      else if channels = 3 then row ! (3 * x + k)
      else Blend g (row ! (4 * x + k)) (row ! (4 * x + 3)))"

text \<open>
  A processor rejected the job on memory grounds: it returned \<^verbatim>\<open>ProcessFailed\<close> after
  printing the memory-limit message (every other failure prints something else).
\<close>

definition memory_rejected :: "fault + outcome \<Rightarrow> bool" where
  "memory_rejected r =
     (r = Inr (ProcessFailed, [], [''Memory limit would be exceeded. Failing.'']))"

text \<open>
  What a processor returns for a job that passed the memory check: the last step of each
  \<^verbatim>\<open>Process\<close>, the call of the encoder.
\<close>

definition encode_rgb :: "globals \<Rightarrow> extern \<Rightarrow> bytes \<Rightarrow> int \<Rightarrow> int \<Rightarrow> fault + outcome" where
  "encode_rgb g ext rgb xsize ysize =
     (case guetzli_Process_rgb ext (quality g) rgb xsize ysize of
        None \<Rightarrow> Inr (ProcessFailed, [], [''Guetzli processing failed''])
      | Some out_data \<Rightarrow> Inr (Sucess, out_data, []))"

definition encode_jpeg :: "globals \<Rightarrow> extern \<Rightarrow> bytes \<Rightarrow> fault + outcome" where
  "encode_jpeg g ext in_data =
     (case guetzli_Process_jpeg ext (quality g) in_data of
        None \<Rightarrow> Inr (ProcessFailed, [], [''Guetzli processing failed''])
      | Some out_data \<Rightarrow> Inr (Sucess, out_data, []))"

subsection \<open>Example inputs\<close>

text \<open>
  A 2 x 1 RGBA PNG image (a transparent and an opaque pixel), a 2 x 1 TIFF image with
  three samples per pixel, collaborators that decode to these and encode trivially, and
  collaborators that all fail.
\<close>

definition example_png :: png_image where
  "example_png = \<lparr>png_image_width = 2, png_image_height = 1, png_channels = 4,
     png_rows = [[200, 100, 50, 0, 10, 20, 30, 255]]\<rparr>"

definition example_tiff :: tiff_image where
  "example_tiff = \<lparr>tiff_IMAGEWIDTH = 2, tiff_IMAGELENGTH = 1, tiff_SAMPLESPERPIXEL = 3,
     tiff_RGBAImage = Some [0xFF3264C8, 0xFF1E140A], tiff_byte_behind_raster = 0\<rparr>"

definition example_extern :: extern where
  "example_extern =
     \<lparr>png_read_png = (\<lambda>_. Some example_png), TIFFClientOpen = (\<lambda>_. Some example_tiff),
      ReadJpeg = (\<lambda>_. Some (10000, 10000)),
      guetzli_Process_rgb = (\<lambda>_ rgb _ _. Some rgb), guetzli_Process_jpeg = (\<lambda>_ d. Some d)\<rparr>"

definition failing_extern :: extern where
  "failing_extern =
     \<lparr>png_read_png = (\<lambda>_. None), TIFFClientOpen = (\<lambda>_. None), ReadJpeg = (\<lambda>_. None),
      guetzli_Process_rgb = (\<lambda>_ _ _ _. None), guetzli_Process_jpeg = (\<lambda>_ _. None)\<rparr>"

text \<open>
  A 2 x 1 TIFF image with four samples per pixel, both pixels opaque: (100, 100, 100)
  and (10, 20, 30). The byte behind its raster is 0.
\<close>

definition opaque_rgba_tiff :: tiff_image where
  "opaque_rgba_tiff = \<lparr>tiff_IMAGEWIDTH = 2, tiff_IMAGELENGTH = 1, tiff_SAMPLESPERPIXEL = 4,
     tiff_RGBAImage = Some [0xFF646464, 0xFF1E140A], tiff_byte_behind_raster = 0\<rparr>"

section \<open>Properties\<close>

subsection \<open>Evaluation of the loops and buffers on numerals\<close>

lemma bindE_simps [simp]:
  "bindE (Inl e) f = Inl e" "bindE (Inr v) f = f v"
  by (simp_all add: bindE_def)

lemma for_loop_numeral [simp]:
  "for_loop (numeral k) body s
     = bindE (for_loop (pred_numeral k) body s) (body (pred_numeral k))"
  by (simp add: numeral_eq_Suc)

lemma replicate_numeral [simp]:
  "replicate (numeral k) x = x # replicate (pred_numeral k) x"
  by (simp add: numeral_eq_Suc)

lemma list_update_numeral [simp]:
  "(x # xs)[numeral k := y] = x # xs[pred_numeral k := y]"
  by (simp add: numeral_eq_Suc)

lemma example_png_decodes:
  "ReadPNG g (png_read_png example_extern) d
     = Inr (Some (2, 1, [Blend g 200 0, Blend g 100 0, Blend g 50 0,
                         Blend g 10 255, Blend g 20 255, Blend g 30 255]))"
  by (simp add: ReadPNG_def example_extern_def example_png_def imul_def iadd_def int32_def
      INT_MIN_def INT_MAX_def resize_def ReadPNG_row4_def row_at_def load_def store_def
      Let_def)

lemma example_tiff_decodes:
  "ReadTIFF g (TIFFClientOpen example_extern) d
     = Inr (Inr (2, 1, [200, 100, 50, 10, 20, 30]))"
  by (simp add: ReadTIFF_def example_extern_def example_tiff_def imul_def iadd_def int32_def
      INT_MIN_def INT_MAX_def resize_def ReadTIFF_row3_def for_loop_u32_def pixel_byte_def
      store_def Let_def)

subsection \<open>Arithmetic of the black-background blend\<close>

lemma BlendOnBlack_uint:
  "uint (BlendOnBlack val alpha) = (uint val * uint alpha + 128) div 255"
proof -
  have v: "0 \<le> uint val" "uint val \<le> 255" and a: "0 \<le> uint alpha" "uint alpha \<le> 255"
    using uint_lt2p [of val] uint_lt2p [of alpha] by simp_all
  have "uint val * uint alpha \<le> 255 * 255"
    using v a by (intro mult_mono) simp_all
  then have hi: "(uint val * uint alpha + 128) div 255 < 256"
    by simp
  have "0 \<le> uint val * uint alpha"
    using v a by simp
  then have lo: "0 \<le> (uint val * uint alpha + 128) div 255"
    by (simp add: pos_imp_zdiv_nonneg_iff)
  show ?thesis
    unfolding BlendOnBlack_def using lo hi by (simp add: uint_word_of_int)
qed

lemma BlendOnBlack_le: "BlendOnBlack val alpha \<le> val"
proof -
  have v: "0 \<le> uint val" and a: "0 \<le> uint alpha" "uint alpha \<le> 255"
    using uint_lt2p [of alpha] by simp_all
  have "uint val * uint alpha \<le> uint val * 255"
    using v a by (intro mult_left_mono) simp_all
  then have "uint val * uint alpha + 128 < (uint val + 1) * 255"
    by (simp add: algebra_simps)
  then have "(uint val * uint alpha + 128) div 255 < uint val + 1"
    by (simp add: div_less_iff_less_mult)
  then show ?thesis
    by (simp add: word_le_def BlendOnBlack_uint)
qed

subsection \<open>The compositor\<close>

text \<open>
  C6: with the black background selected, \<open>Blend\<close> is \<open>(sample * alpha + 128) / 255\<close> in
  integer arithmetic for every sample and every alpha; the result lies between 0 and the
  sample, is 0 at alpha 0 and is the sample at alpha 255.
\<close>

theorem OnBlack_bounds:
  "uint (Blend (g\<lparr>blendOnBlack := True\<rparr>) sample alpha)
     = (uint sample * uint alpha + 128) div 255
   \<and> 0 \<le> Blend (g\<lparr>blendOnBlack := True\<rparr>) sample alpha
   \<and> Blend (g\<lparr>blendOnBlack := True\<rparr>) sample alpha \<le> sample
   \<and> Blend (g\<lparr>blendOnBlack := True\<rparr>) sample 0 = 0
   \<and> Blend (g\<lparr>blendOnBlack := True\<rparr>) sample 255 = sample"
proof -
  have eq: "Blend (g\<lparr>blendOnBlack := True\<rparr>) s a = BlendOnBlack s a" for s a
    by (simp add: Blend_def)
  have z: "BlendOnBlack sample 0 = 0"
    by (simp add: BlendOnBlack_def)
  have "uint (BlendOnBlack sample 255) = uint sample"
    by (simp add: BlendOnBlack_uint)
  then have f: "BlendOnBlack sample 255 = sample"
    by (simp only: word_uint_eq_iff)
  show ?thesis
    unfolding eq using BlendOnBlack_uint BlendOnBlack_le z f by simp
qed

text \<open>
  C7: with the white background selected, \<open>Blend\<close> returns 255 at alpha 0 and the sample
  unchanged at alpha 255, for every sample.
\<close>

theorem OnWhite_boundaries:
  "Blend (g\<lparr>blendOnBlack := False\<rparr>) sample 0 = 255
   \<and> Blend (g\<lparr>blendOnBlack := False\<rparr>) sample 255 = sample"
  by (simp add: Blend_def BlendOnWhite_def)

text \<open>
  C1: at a partial alpha the white-background blend is specified as
  \<open>255 - ((sample * alpha + 128) / 255)\<close>. The guard \<^verbatim>\<open>alpha < 1\<close> of \<^verbatim>\<open>BlendOnWhite\<close>
  lets that expression run at alpha 0 only; at sample 100 and alpha 128 the function
  returns the sample, 100, where the expression gives 205.
\<close>

theorem OnWhite_partial_alpha_100_128:
  "Blend (default_globals\<lparr>blendOnBlack := False\<rparr>) 100 128 = 100
   \<and> OnWhite_spec_formula 100 128 = 205"
  by (simp add: Blend_def BlendOnWhite_def OnWhite_spec_formula_def default_globals_def)

subsection \<open>The memory check\<close>

lemma Png_gate:
  assumes "length in_data \<ge> 8" "take 8 in_data = kPNGMagicBytes"
    and "ReadPNG g (png_read_png ext) in_data = Inr (Some (w, h, rgb))"
    and "memlimit_mb g \<noteq> - 1"
  shows "memory_rejected (PngProcessor_Process g ext in_data)
           = AdmissionGate_rejects w h (memlimit_mb g)"
  using assms
  by (simp add: PngProcessor_Process_def memory_rejected_def AdmissionGate_rejects_def
      kBytesPerPixel_def kLowestMemusageMB_def mult.commute split: option.splits)

lemma Tiff_gate:
  assumes "length in_data \<ge> 2"
    and "take 2 in_data = ushort_bytes TIFF_BIGENDIAN
         \<or> take 2 in_data = ushort_bytes TIFF_LITTLEENDIAN"
    and "ReadTIFF g (TIFFClientOpen ext) in_data = Inr (Inr (w, h, rgb))"
    and "memlimit_mb g \<noteq> - 1"
  shows "memory_rejected (TiffProcessor_Process g ext in_data)
           = AdmissionGate_rejects w h (memlimit_mb g)"
  using assms
  by (auto simp add: TiffProcessor_Process_def memory_rejected_def AdmissionGate_rejects_def
      kBytesPerPixel_def kLowestMemusageMB_def mult.commute split: option.splits)

lemma Jpeg_gate:
  assumes "ReadJpeg ext in_data = Some (w, h)"
    and "memlimit_mb g \<noteq> - 1"
  shows "memory_rejected (JpegProcessor_Process g ext in_data)
           = AdmissionGate_rejects w h (memlimit_mb g)"
  using assms
  by (simp add: JpegProcessor_Process_def memory_rejected_def AdmissionGate_rejects_def
      kBytesPerPixel_def kLowestMemusageMB_def mult.commute split: option.splits)

text \<open>
  C3: with a finite memory limit (any value but the sentinel -1), each of the three
  processors, once it knows the dimensions, rejects the job on memory grounds if and only
  if \<open>width * height * 110 / (1 << 20)\<close> exceeds the limit or the limit is below 100; the
  check is the same on the PNG, the TIFF and the JPEG path, and a 10000 x 10000 image is
  rejected at a limit of 100.
\<close>

theorem AdmissionGate_three_paths:
  assumes "memlimit_mb g \<noteq> - 1"
  shows "AdmissionGate_rejects 10000 10000 100
    \<and> (8 \<le> length d \<and> take 8 d = kPNGMagicBytes
         \<and> ReadPNG g (png_read_png ext) d = Inr (Some (w, h, rgb))
       \<longrightarrow> memory_rejected (PngProcessor_Process g ext d)
             = AdmissionGate_rejects w h (memlimit_mb g))
    \<and> (2 \<le> length d
         \<and> (take 2 d = ushort_bytes TIFF_BIGENDIAN \<or> take 2 d = ushort_bytes TIFF_LITTLEENDIAN)
         \<and> ReadTIFF g (TIFFClientOpen ext) d = Inr (Inr (w, h, rgb))
       \<longrightarrow> memory_rejected (TiffProcessor_Process g ext d)
             = AdmissionGate_rejects w h (memlimit_mb g))
    \<and> (ReadJpeg ext d = Some (w, h)
       \<longrightarrow> memory_rejected (JpegProcessor_Process g ext d)
             = AdmissionGate_rejects w h (memlimit_mb g))"
proof -
  have "AdmissionGate_rejects 10000 10000 100"
    by (simp add: AdmissionGate_rejects_def)
  then show ?thesis
    using assms Png_gate [of d g ext w h rgb] Tiff_gate [of d g ext w h rgb]
      Jpeg_gate [of ext d w h g]
    by blast
qed

theorem AdmissionGate_three_paths_witness:
  "memory_rejected
     (JpegProcessor_Process (default_globals\<lparr>memlimit_mb := 100\<rparr>) example_extern [])
   \<and> memory_rejected
       (PngProcessor_Process (default_globals\<lparr>memlimit_mb := 50\<rparr>) example_extern
          kPNGMagicBytes)
   \<and> \<not> memory_rejected
       (TiffProcessor_Process default_globals example_extern [0x49, 0x49, 0x2A, 0])"
proof -
  have j: "ReadJpeg example_extern [] = Some (10000, 10000)"
    by (simp add: example_extern_def)
  have p: "8 \<le> length kPNGMagicBytes \<and> take 8 kPNGMagicBytes = kPNGMagicBytes
    \<and> ReadPNG (default_globals\<lparr>memlimit_mb := 50\<rparr>) (png_read_png example_extern)
         kPNGMagicBytes
       = Inr (Some (2, 1, [0, 0, 0, 10, 20, 30]))"
    by (simp add: example_png_decodes Blend_def default_globals_def BlendOnBlack_def)
       (simp add: kPNGMagicBytes_def)
  have t: "2 \<le> length [0x49, 0x49, 0x2A, 0 :: 8 word]
    \<and> (take 2 [0x49, 0x49, 0x2A, 0] = ushort_bytes TIFF_BIGENDIAN
       \<or> take 2 [0x49, 0x49, 0x2A, 0] = ushort_bytes TIFF_LITTLEENDIAN)
    \<and> ReadTIFF default_globals (TIFFClientOpen example_extern) [0x49, 0x49, 0x2A, 0]
       = Inr (Inr (2, 1, [200, 100, 50, 10, 20, 30]))"
    by (simp add: example_tiff_decodes ushort_bytes_def TIFF_LITTLEENDIAN_def)
  have r: "AdmissionGate_rejects 10000 10000 100" "AdmissionGate_rejects 2 1 50"
    "\<not> AdmissionGate_rejects 2 1 6000"
    by (simp_all add: AdmissionGate_rejects_def)
  show ?thesis
    using AdmissionGate_three_paths [where g = "default_globals\<lparr>memlimit_mb := 100\<rparr>"
        and ext = example_extern and d = "[]" and w = 10000 and h = 10000]
      AdmissionGate_three_paths [where g = "default_globals\<lparr>memlimit_mb := 50\<rparr>"
        and ext = example_extern and d = kPNGMagicBytes and w = 2 and h = 1
        and rgb = "[0, 0, 0, 10, 20, 30]"]
      AdmissionGate_three_paths [where g = default_globals
        and ext = example_extern and d = "[0x49, 0x49, 0x2A, 0]" and w = 2 and h = 1
        and rgb = "[200, 100, 50, 10, 20, 30]"]
      j p t r
    by (simp add: default_globals_def kDefaultMemlimitMB_def)
qed

lemma Png_nolimit:
  "\<not> memory_rejected (PngProcessor_Process (g\<lparr>memlimit_mb := - 1\<rparr>) ext d)"
  by (cases "ReadPNG (g\<lparr>memlimit_mb := - 1\<rparr>) (png_read_png ext) d")
     (auto simp add: PngProcessor_Process_def memory_rejected_def split: option.splits)

lemma Tiff_nolimit:
  "\<not> memory_rejected (TiffProcessor_Process (g\<lparr>memlimit_mb := - 1\<rparr>) ext d)"
  by (cases "ReadTIFF (g\<lparr>memlimit_mb := - 1\<rparr>) (TIFFClientOpen ext) d")
     (auto simp add: TiffProcessor_Process_def memory_rejected_def
       split: option.splits sum.splits)

lemma Jpeg_nolimit:
  "\<not> memory_rejected (JpegProcessor_Process (g\<lparr>memlimit_mb := - 1\<rparr>) ext d)"
  by (auto simp add: JpegProcessor_Process_def memory_rejected_def split: option.splits)

text \<open>
  C10: with the memory limit at the sentinel -1 (\<^verbatim>\<open>--nomemlimit\<close>), no processor rejects
  a job on memory grounds, whatever the input and its dimensions: neither the size
  estimate nor the floor of 100 is checked, and a job whose dimensions are known goes to
  the encoder.
\<close>

theorem nomemlimit_admits:
  "\<not> memory_rejected (PngProcessor_Process (g\<lparr>memlimit_mb := - 1\<rparr>) ext d)
   \<and> \<not> memory_rejected (TiffProcessor_Process (g\<lparr>memlimit_mb := - 1\<rparr>) ext d)
   \<and> \<not> memory_rejected (JpegProcessor_Process (g\<lparr>memlimit_mb := - 1\<rparr>) ext d)
   \<and> (8 \<le> length d \<and> take 8 d = kPNGMagicBytes
        \<and> ReadPNG (g\<lparr>memlimit_mb := - 1\<rparr>) (png_read_png ext) d = Inr (Some (w, h, rgb))
      \<longrightarrow> PngProcessor_Process (g\<lparr>memlimit_mb := - 1\<rparr>) ext d = encode_rgb g ext rgb w h)
   \<and> (2 \<le> length d
        \<and> (take 2 d = ushort_bytes TIFF_BIGENDIAN \<or> take 2 d = ushort_bytes TIFF_LITTLEENDIAN)
        \<and> ReadTIFF (g\<lparr>memlimit_mb := - 1\<rparr>) (TIFFClientOpen ext) d = Inr (Inr (w, h, rgb))
      \<longrightarrow> TiffProcessor_Process (g\<lparr>memlimit_mb := - 1\<rparr>) ext d = encode_rgb g ext rgb w h)
   \<and> (ReadJpeg ext d = Some (w, h)
      \<longrightarrow> JpegProcessor_Process (g\<lparr>memlimit_mb := - 1\<rparr>) ext d = encode_jpeg g ext d)"
proof -
  have p: "PngProcessor_Process (g\<lparr>memlimit_mb := - 1\<rparr>) ext d = encode_rgb g ext rgb w h"
    if "8 \<le> length d" "take 8 d = kPNGMagicBytes"
      "ReadPNG (g\<lparr>memlimit_mb := - 1\<rparr>) (png_read_png ext) d = Inr (Some (w, h, rgb))"
    using that by (simp add: PngProcessor_Process_def encode_rgb_def)
  have t: "TiffProcessor_Process (g\<lparr>memlimit_mb := - 1\<rparr>) ext d = encode_rgb g ext rgb w h"
    if "2 \<le> length d"
      "take 2 d = ushort_bytes TIFF_BIGENDIAN \<or> take 2 d = ushort_bytes TIFF_LITTLEENDIAN"
      "ReadTIFF (g\<lparr>memlimit_mb := - 1\<rparr>) (TIFFClientOpen ext) d = Inr (Inr (w, h, rgb))"
    using that by (auto simp add: TiffProcessor_Process_def encode_rgb_def)
  have j: "JpegProcessor_Process (g\<lparr>memlimit_mb := - 1\<rparr>) ext d = encode_jpeg g ext d"
    if "ReadJpeg ext d = Some (w, h)"
    using that by (simp add: JpegProcessor_Process_def encode_jpeg_def)
  show ?thesis
    using Png_nolimit Tiff_nolimit Jpeg_nolimit p t j by blast
qed

theorem nomemlimit_admits_witness:
  "JpegProcessor_Process (default_globals\<lparr>memlimit_mb := - 1\<rparr>) example_extern []
     = Inr (Sucess, [], [])
   \<and> PngProcessor_Process (default_globals\<lparr>memlimit_mb := - 1\<rparr>) example_extern kPNGMagicBytes
     = Inr (Sucess, [0, 0, 0, 10, 20, 30], [])
   \<and> TiffProcessor_Process (default_globals\<lparr>memlimit_mb := - 1\<rparr>) example_extern
        [0x4d, 0x4d, 0, 0x2A]
     = Inr (Sucess, [200, 100, 50, 10, 20, 30], [])"
proof -
  have j: "ReadJpeg example_extern [] = Some (10000, 10000)"
    by (simp add: example_extern_def)
  have p: "8 \<le> length kPNGMagicBytes \<and> take 8 kPNGMagicBytes = kPNGMagicBytes
    \<and> ReadPNG (default_globals\<lparr>memlimit_mb := - 1\<rparr>) (png_read_png example_extern)
         kPNGMagicBytes
       = Inr (Some (2, 1, [0, 0, 0, 10, 20, 30]))"
    by (simp add: example_png_decodes Blend_def default_globals_def BlendOnBlack_def)
       (simp add: kPNGMagicBytes_def)
  have t: "2 \<le> length [0x4d, 0x4d, 0, 0x2A :: 8 word]
    \<and> (take 2 [0x4d, 0x4d, 0, 0x2A] = ushort_bytes TIFF_BIGENDIAN
       \<or> take 2 [0x4d, 0x4d, 0, 0x2A] = ushort_bytes TIFF_LITTLEENDIAN)
    \<and> ReadTIFF (default_globals\<lparr>memlimit_mb := - 1\<rparr>) (TIFFClientOpen example_extern)
         [0x4d, 0x4d, 0, 0x2A]
       = Inr (Inr (2, 1, [200, 100, 50, 10, 20, 30]))"
    by (simp add: example_tiff_decodes ushort_bytes_def TIFF_BIGENDIAN_def)
  have e: "encode_rgb default_globals example_extern rgb 2 1 = Inr (Sucess, rgb, [])"
    "encode_jpeg default_globals example_extern dd = Inr (Sucess, dd, [])" for rgb dd
    by (simp_all add: encode_rgb_def encode_jpeg_def example_extern_def)
  have "JpegProcessor_Process (default_globals\<lparr>memlimit_mb := - 1\<rparr>) example_extern []
      = encode_jpeg default_globals example_extern []"
    using nomemlimit_admits [where g = default_globals
        and ext = example_extern and d = "[]" and w = 10000 and h = 10000] j
    by blast
  moreover have "PngProcessor_Process (default_globals\<lparr>memlimit_mb := - 1\<rparr>)
        example_extern kPNGMagicBytes
      = encode_rgb default_globals example_extern [0, 0, 0, 10, 20, 30] 2 1"
    using nomemlimit_admits [where g = default_globals
        and ext = example_extern and d = kPNGMagicBytes and w = 2 and h = 1
        and rgb = "[0, 0, 0, 10, 20, 30]"] p
    by blast
  moreover have "TiffProcessor_Process (default_globals\<lparr>memlimit_mb := - 1\<rparr>)
        example_extern [0x4d, 0x4d, 0, 0x2A]
      = encode_rgb default_globals example_extern [200, 100, 50, 10, 20, 30] 2 1"
    using nomemlimit_admits [where g = default_globals
        and ext = example_extern and d = "[0x4d, 0x4d, 0, 0x2A]" and w = 2 and h = 1
        and rgb = "[200, 100, 50, 10, 20, 30]"] t
    by blast
  ultimately show ?thesis
    by (simp add: e)
qed

subsection \<open>The dispatch\<close>

lemma processors_loop_Png_claims:
  assumes "PngProcessor_Process g ext d = Inr (r, out, err)" "r \<noteq> NotSupported"
  shows "guetzli_main g ext filename d
    = (if r = Sucess then Inr (0, Some out, err, [0])
       else Inr (2, None, err @ [''Unknown file format: '' @ filename], [0]))"
  using assms by (simp add: guetzli_main_def)

lemma Png_magic_not_NotSupported:
  assumes "8 \<le> length d" "take 8 d = kPNGMagicBytes"
    and "PngProcessor_Process g ext d = Inr (r, out, err)"
  shows "r \<noteq> NotSupported"
  using assms
  by (cases "ReadPNG g (png_read_png ext) d")
     (auto simp add: PngProcessor_Process_def Let_def split: option.splits if_splits)

text \<open>
  C4: for a buffer of at least 8 bytes that starts with the PNG signature, the PNG
  processor never answers \<^verbatim>\<open>NotSupported\<close>, so \<^verbatim>\<open>main\<close> calls no other processor (a run
  that returns has called processor 0 only, and a run that faults faulted inside the PNG
  processor); when \<^verbatim>\<open>ReadPNG\<close> returns false the answer is \<^verbatim>\<open>ProcessFailed\<close>.
\<close>

theorem Png_signature_owns_input:
  assumes "8 \<le> length d" and "take 8 d = kPNGMagicBytes"
  shows "(\<forall>r out err. PngProcessor_Process g ext d = Inr (r, out, err) \<longrightarrow> r \<noteq> NotSupported)
    \<and> (ReadPNG g (png_read_png ext) d = Inr None
        \<longrightarrow> PngProcessor_Process g ext d
            = Inr (ProcessFailed, [], [''Error reading PNG data from input file'']))
    \<and> (\<forall>status written err called.
          guetzli_main g ext filename d = Inr (status, written, err, called)
          \<longrightarrow> called = [0])
    \<and> (\<forall>f. guetzli_main g ext filename d = Inl f \<longrightarrow> PngProcessor_Process g ext d = Inl f)"
proof (intro conjI allI impI)
  fix r out err
  assume "PngProcessor_Process g ext d = Inr (r, out, err)"
  then show "r \<noteq> NotSupported"
    using assms Png_magic_not_NotSupported by blast
next
  assume "ReadPNG g (png_read_png ext) d = Inr None"
  then show "PngProcessor_Process g ext d
    = Inr (ProcessFailed, [], [''Error reading PNG data from input file''])"
    using assms by (simp add: PngProcessor_Process_def)
next
  fix status written err called
  assume m: "guetzli_main g ext filename d = Inr (status, written, err, called)"
  show "called = [0]"
  proof (cases "PngProcessor_Process g ext d")
    case (Inl f)
    then show ?thesis using m by (simp add: guetzli_main_def)
  next
    case (Inr res)
    obtain r out e where o: "res = (r, out, e)" by (cases res)
    have "r \<noteq> NotSupported"
      using assms Inr o Png_magic_not_NotSupported by blast
    then show ?thesis
      using m Inr o processors_loop_Png_claims [of g ext d r out e filename]
      by (auto split: if_splits)
  qed
next
  fix f
  assume m: "guetzli_main g ext filename d = Inl f"
  show "PngProcessor_Process g ext d = Inl f"
  proof (cases "PngProcessor_Process g ext d")
    case (Inl f')
    then show ?thesis using m by (simp add: guetzli_main_def)
  next
    case (Inr res)
    obtain r out e where o: "res = (r, out, e)" by (cases res)
    have "r \<noteq> NotSupported"
      using assms Inr o Png_magic_not_NotSupported by blast
    then show ?thesis
      using m Inr o processors_loop_Png_claims [of g ext d r out e filename]
      by (auto split: if_splits)
  qed
qed


theorem Png_signature_owns_input_witness:
  "PngProcessor_Process default_globals failing_extern (kPNGMagicBytes @ [0, 0])
     = Inr (ProcessFailed, [], [''Error reading PNG data from input file''])
   \<and> guetzli_main default_globals failing_extern ''in.png'' (kPNGMagicBytes @ [0, 0])
     = Inr (2, None,
            [''Error reading PNG data from input file'', ''Unknown file format: in.png''],
            [0])"
proof -
  have l: "8 \<le> length (kPNGMagicBytes @ [0, 0])"
    and k: "take 8 (kPNGMagicBytes @ [0, 0]) = kPNGMagicBytes"
    by (simp_all add: kPNGMagicBytes_def)
  have r: "ReadPNG default_globals (png_read_png failing_extern) (kPNGMagicBytes @ [0, 0])
    = Inr None"
    by (simp add: ReadPNG_def failing_extern_def)
  have p: "PngProcessor_Process default_globals failing_extern (kPNGMagicBytes @ [0, 0])
     = Inr (ProcessFailed, [], [''Error reading PNG data from input file''])"
    using Png_signature_owns_input [OF l k, of default_globals failing_extern] r by blast
  then have "guetzli_main default_globals failing_extern ''in.png'' (kPNGMagicBytes @ [0, 0])
     = Inr (2, None,
            [''Error reading PNG data from input file'', ''Unknown file format: in.png''],
            [0])"
    by (simp add: guetzli_main_def)
  with p show ?thesis by simp
qed

text \<open>
  C9: for a buffer that has neither the PNG signature nor a TIFF byte-order mark and
  whose JPEG header does not parse, all three processors answer \<^verbatim>\<open>NotSupported\<close>, and
  \<^verbatim>\<open>main\<close> returns (no fault) with exit status 2 and the message of an unknown file
  format, after calling the three processors in order.
\<close>

theorem unknown_format:
  assumes "\<not> (8 \<le> length d \<and> take 8 d = kPNGMagicBytes)"
    and "\<not> (2 \<le> length d
             \<and> (take 2 d = ushort_bytes TIFF_BIGENDIAN
                \<or> take 2 d = ushort_bytes TIFF_LITTLEENDIAN))"
    and "ReadJpeg ext d = None"
  shows "PngProcessor_Process g ext d = Inr (NotSupported, [], [])
    \<and> TiffProcessor_Process g ext d = Inr (NotSupported, [], [])
    \<and> JpegProcessor_Process g ext d
        = Inr (NotSupported, [], [''Error reading JPG data from input file''])
    \<and> guetzli_main g ext filename d
        = Inr (2, None,
               [''Error reading JPG data from input file'',
                ''Unknown file format: '' @ filename],
               [0, 1, 2])"
proof -
  have p: "PngProcessor_Process g ext d = Inr (NotSupported, [], [])"
    using assms(1) by (auto simp add: PngProcessor_Process_def)
  have t: "TiffProcessor_Process g ext d = Inr (NotSupported, [], [])"
    using assms(2) by (auto simp add: TiffProcessor_Process_def)
  have j: "JpegProcessor_Process g ext d
        = Inr (NotSupported, [], [''Error reading JPG data from input file''])"
    using assms(3) by (simp add: JpegProcessor_Process_def)
  show ?thesis
    by (simp add: p t j guetzli_main_def)
qed

theorem unknown_format_witness:
  "guetzli_main default_globals failing_extern ''zeros'' (replicate 16 0)
     = Inr (2, None,
            [''Error reading JPG data from input file'', ''Unknown file format: zeros''],
            [0, 1, 2])
   \<and> PngProcessor_Process default_globals failing_extern (replicate 16 0)
       = Inr (NotSupported, [], [])
   \<and> TiffProcessor_Process default_globals failing_extern (replicate 16 0)
       = Inr (NotSupported, [], [])
   \<and> JpegProcessor_Process default_globals failing_extern (replicate 16 0)
       = Inr (NotSupported, [], [''Error reading JPG data from input file''])"
proof -
  have a: "\<not> (8 \<le> length (replicate 16 (0 :: 8 word))
              \<and> take 8 (replicate 16 (0 :: 8 word)) = kPNGMagicBytes)"
    by (simp add: kPNGMagicBytes_def)
  have b: "\<not> (2 \<le> length (replicate 16 (0 :: 8 word))
             \<and> (take 2 (replicate 16 0) = ushort_bytes TIFF_BIGENDIAN
                \<or> take 2 (replicate 16 0) = ushort_bytes TIFF_LITTLEENDIAN))"
    by (simp add: ushort_bytes_def TIFF_BIGENDIAN_def TIFF_LITTLEENDIAN_def)
  have c: "ReadJpeg failing_extern (replicate 16 0) = None"
    by (simp add: failing_extern_def)
  show ?thesis
    using unknown_format [OF a b c, of default_globals "''zeros''"] by simp
qed

subsection \<open>The decoders\<close>

lemma bindE_Inr_iff: "bindE m f = Inr r \<longleftrightarrow> (\<exists>v. m = Inr v \<and> f v = Inr r)"
  by (cases m) simp_all

lemma int32_Inr_iff: "int32 v = Inr t \<longleftrightarrow> t = v \<and> INT_MIN \<le> v \<and> v \<le> INT_MAX"
  by (auto simp add: int32_def)

lemma imul_Inr_iff: "imul a b = Inr t \<longleftrightarrow> t = a * b \<and> INT_MIN \<le> a * b \<and> a * b \<le> INT_MAX"
  by (simp add: imul_def int32_Inr_iff)

lemma iadd_Inr_iff: "iadd a b = Inr t \<longleftrightarrow> t = a + b \<and> INT_MIN \<le> a + b \<and> a + b \<le> INT_MAX"
  by (simp add: iadd_def int32_Inr_iff)

lemma store_Inr_iff:
  "store b off v rgb = Inr t
     \<longleftrightarrow> 0 \<le> b + off \<and> b + off < int (length rgb) \<and> t = rgb[nat (b + off) := v]"
  by (auto simp add: store_def Let_def)

lemma load_Inr_iff:
  "load row i = Inr v \<longleftrightarrow> 0 \<le> i \<and> i < int (length row) \<and> v = row ! nat i"
  by (auto simp add: load_def)

lemma row_at_Inr_iff:
  "row_at rows y = Inr row \<longleftrightarrow> y < length rows \<and> row = rows ! y"
  by (auto simp add: row_at_def)

lemma resize_Inr_iff: "resize n = Inr rgb \<longleftrightarrow> 0 \<le> n \<and> rgb = replicate (nat n) 0"
  by (auto simp add: resize_def)

lemma memcpy_row_Inr_iff:
  "memcpy_row b row n rgb = Inr t
     \<longleftrightarrow> 0 \<le> n \<and> 0 \<le> b \<and> n \<le> int (length row) \<and> b + n \<le> int (length rgb)
         \<and> t = take (nat b) rgb @ take (nat n) row @ drop (nat (b + n)) rgb"
  by (auto simp add: memcpy_row_def)

lemmas Inr_iffs = bindE_Inr_iff imul_Inr_iff iadd_Inr_iff store_Inr_iff load_Inr_iff
  row_at_Inr_iff

lemma for_loop_pixels:
  fixes px :: "nat \<Rightarrow> nat \<Rightarrow> uint8_t"
  assumes body: "\<And>x s t. x < n \<Longrightarrow> body x s = Inr t \<Longrightarrow>
      Q x \<and> base + 3 * x + 2 < length s
      \<and> t = s[base + 3 * x := px x 0, base + 3 * x + 1 := px x 1, base + 3 * x + 2 := px x 2]"
    and run: "for_loop n body rgb = Inr rgb'"
  shows "length rgb' = length rgb
    \<and> (\<forall>x<n. Q x \<and> base + 3 * x + 2 < length rgb
          \<and> rgb' ! (base + 3 * x) = px x 0 \<and> rgb' ! (base + 3 * x + 1) = px x 1
          \<and> rgb' ! (base + 3 * x + 2) = px x 2)
    \<and> (\<forall>j<base. rgb' ! j = rgb ! j)"
  using body run
proof (induction n arbitrary: rgb')
  case 0
  then show ?case by simp
next
  case (Suc n)
  from Suc.prems(2) obtain mid where mid: "for_loop n body rgb = Inr mid"
    and last: "body n mid = Inr rgb'"
    by (auto simp add: bindE_Inr_iff)
  have IH: "length mid = length rgb
    \<and> (\<forall>x<n. Q x \<and> base + 3 * x + 2 < length rgb
          \<and> mid ! (base + 3 * x) = px x 0 \<and> mid ! (base + 3 * x + 1) = px x 1
          \<and> mid ! (base + 3 * x + 2) = px x 2)
    \<and> (\<forall>j<base. mid ! j = rgb ! j)"
    using Suc.IH [OF _ mid] Suc.prems(1) by simp
  have step: "Q n \<and> base + 3 * n + 2 < length mid
      \<and> rgb' = mid[base + 3 * n := px n 0, base + 3 * n + 1 := px n 1,
                    base + 3 * n + 2 := px n 2]"
    using Suc.prems(1) [OF _ last] by simp
  show ?case
  proof (intro conjI allI impI)
    show "length rgb' = length rgb"
      using IH step by simp
  next
    fix x assume x: "x < Suc n"
    show "Q x" using x IH step by (cases "x = n") auto
    show "base + 3 * x + 2 < length rgb" using x IH step by (cases "x = n") auto
    show "rgb' ! (base + 3 * x) = px x 0"
      using x IH step by (cases "x = n") (auto simp add: nth_list_update)
    show "rgb' ! (base + 3 * x + 1) = px x 1"
      using x IH step by (cases "x = n") (auto simp add: nth_list_update)
    show "rgb' ! (base + 3 * x + 2) = px x 2"
      using x IH step by (cases "x = n") (auto simp add: nth_list_update)
  next
    fix j assume "j < base"
    then show "rgb' ! j = rgb ! j"
      using IH step by (simp add: nth_list_update)
  qed
qed


lemma nat_index:
  assumes "0 \<le> b"
  shows "nat (b + 3 * int x) = nat b + 3 * x"
    and "nat (b + (3 * int x + 1)) = nat b + 3 * x + 1"
    and "nat (b + (3 * int x + 2)) = nat b + 3 * x + 2"
  using assms by linarith+

lemma row_out_nonneg:
  assumes "x < nat xsize"
  shows "0 \<le> 3 * int y * xsize" and "nat (3 * int y * xsize) = 3 * y * nat xsize"
proof -
  have "0 < xsize" using assms by simp
  then show "0 \<le> 3 * int y * xsize" by simp
  show "nat (3 * int y * xsize) = 3 * y * nat xsize"
    using \<open>0 < xsize\<close> by (simp add: nat_mult_distrib)
qed

lemma row1_body:
  assumes "0 \<le> b"
    and "bindE (load row (int x)) (\<lambda>gray.
         bindE (imul 3 (int x)) (\<lambda>x3.
         bindE (bindE (iadd x3 0) (\<lambda>off. store b off gray s)) (\<lambda>rgb.
         bindE (bindE (iadd x3 1) (\<lambda>off. store b off gray rgb)) (\<lambda>rgb.
         bindE (iadd x3 2) (\<lambda>off. store b off gray rgb))))) = Inr u"
  shows "x < length row \<and> nat b + 3 * x + 2 < length s
      \<and> u = s[nat b + 3 * x := row ! x, nat b + 3 * x + 1 := row ! x,
              nat b + 3 * x + 2 := row ! x]"
proof -
  from assms(2) have "x < length row" "b + (3 * int x + 2) < int (length s)"
    and u: "u = s[nat (b + 3 * int x) := row ! x, nat (b + (3 * int x + 1)) := row ! x,
              nat (b + (3 * int x + 2)) := row ! x]"
    by (auto simp add: Inr_iffs)
  moreover have "nat b + 3 * x + 2 < length s"
    using assms(1) \<open>b + (3 * int x + 2) < int (length s)\<close> by linarith
  ultimately show ?thesis
    by (simp add: nat_index [OF assms(1)])
qed

lemma ReadPNG_row1_ok:
  assumes "ReadPNG_row1 rows xsize y rgb = Inr t"
  shows "y < length rows \<and> length t = length rgb
    \<and> (\<forall>x<nat xsize. x < length (rows ! y) 
          \<and> 3 * y * nat xsize + 3 * x + 2 < length rgb
          \<and> t ! (3 * y * nat xsize + 3 * x) = rows ! y ! x
          \<and> t ! (3 * y * nat xsize + 3 * x + 1) = rows ! y ! x
          \<and> t ! (3 * y * nat xsize + 3 * x + 2) = rows ! y ! x)
    \<and> (\<forall>j<3 * y * nat xsize. t ! j = rgb ! j)"
proof -
  let ?body = "\<lambda>x rgb.
       bindE (load (rows ! y) (int x)) (\<lambda>gray.
       bindE (imul 3 (int x)) (\<lambda>x3.
       bindE (bindE (iadd x3 0) (\<lambda>off. store (3 * int y * xsize) off gray rgb)) (\<lambda>rgb.
       bindE (bindE (iadd x3 1) (\<lambda>off. store (3 * int y * xsize) off gray rgb)) (\<lambda>rgb.
       bindE (iadd x3 2) (\<lambda>off. store (3 * int y * xsize) off gray rgb)))))"
  from assms have y: "y < length rows"
    and run: "for_loop (nat xsize) ?body rgb = Inr t"
    by (auto simp add: ReadPNG_row1_def Inr_iffs)
  have body: "x < length (rows ! y) \<and> 3 * y * nat xsize + 3 * x + 2 < length s
      \<and> u = s[3 * y * nat xsize + 3 * x := rows ! y ! x,
              3 * y * nat xsize + 3 * x + 1 := rows ! y ! x,
              3 * y * nat xsize + 3 * x + 2 := rows ! y ! x]"
    if "x < nat xsize" "?body x s = Inr u" for x s u
    using row1_body [OF row_out_nonneg(1) [OF that(1), of y] that(2)]
    by (simp only: row_out_nonneg(2) [OF that(1), of y])
  show ?thesis
    using for_loop_pixels [where body = ?body and n = "nat xsize" and rgb = rgb and rgb' = t
        and base = "3 * y * nat xsize" and px = "\<lambda>x k. rows ! y ! x"
        and Q = "\<lambda>x. x < length (rows ! y)", OF body run] y
    by simp
qed


lemma row2_body:
  assumes "0 \<le> b"
    and "bindE (bindE (imul 2 (int x)) (load row)) (\<lambda>v.
         bindE (bindE (bindE (imul 2 (int x)) (\<lambda>t. iadd t 1)) (load row)) (\<lambda>a.
         let gray = Blend g v a in
         bindE (imul 3 (int x)) (\<lambda>x3.
         bindE (bindE (iadd x3 0) (\<lambda>off. store b off gray s)) (\<lambda>rgb.
         bindE (bindE (iadd x3 1) (\<lambda>off. store b off gray rgb)) (\<lambda>rgb.
         bindE (iadd x3 2) (\<lambda>off. store b off gray rgb)))))) = Inr u"
  shows "2 * x + 1 < length row \<and> nat b + 3 * x + 2 < length s
      \<and> u = s[nat b + 3 * x := Blend g (row ! (2 * x)) (row ! (2 * x + 1)),
              nat b + 3 * x + 1 := Blend g (row ! (2 * x)) (row ! (2 * x + 1)),
              nat b + 3 * x + 2 := Blend g (row ! (2 * x)) (row ! (2 * x + 1))]"
proof -
  have n: "nat (2 * int x) = 2 * x" "nat (2 * int x + 1) = 2 * x + 1"
    by linarith+
  from assms(2) have "2 * int x + 1 < int (length row)"
    "b + (3 * int x + 2) < int (length s)"
    and u: "u = s[nat (b + 3 * int x) := Blend g (row ! (2 * x)) (row ! (2 * x + 1)),
              nat (b + (3 * int x + 1)) := Blend g (row ! (2 * x)) (row ! (2 * x + 1)),
              nat (b + (3 * int x + 2)) := Blend g (row ! (2 * x)) (row ! (2 * x + 1))]"
    by (auto simp add: Inr_iffs Let_def n)
  moreover have "nat b + 3 * x + 2 < length s"
    using assms(1) \<open>b + (3 * int x + 2) < int (length s)\<close> by linarith
  moreover have "2 * x + 1 < length row"
    using \<open>2 * int x + 1 < int (length row)\<close> by linarith
  ultimately show ?thesis
    by (simp add: nat_index [OF assms(1)])
qed

lemma row4_body:
  assumes "0 \<le> b"
    and "bindE (imul 4 (int x)) (\<lambda>x4.
         bindE (bindE (iadd x4 3) (load row)) (\<lambda>alpha.
         bindE (imul 3 (int x)) (\<lambda>x3.
         bindE (bindE (bindE (iadd x4 0) (load row)) (\<lambda>v.
                bindE (iadd x3 0) (\<lambda>off. store b off (Blend g v alpha) s))) (\<lambda>rgb.
         bindE (bindE (bindE (iadd x4 1) (load row)) (\<lambda>v.
                bindE (iadd x3 1) (\<lambda>off. store b off (Blend g v alpha) rgb))) (\<lambda>rgb.
         bindE (bindE (iadd x4 2) (load row)) (\<lambda>v.
                bindE (iadd x3 2) (\<lambda>off. store b off (Blend g v alpha) rgb))))))) = Inr u"
  shows "4 * x + 3 < length row \<and> nat b + 3 * x + 2 < length s
      \<and> u = s[nat b + 3 * x := Blend g (row ! (4 * x)) (row ! (4 * x + 3)),
              nat b + 3 * x + 1 := Blend g (row ! (4 * x + 1)) (row ! (4 * x + 3)),
              nat b + 3 * x + 2 := Blend g (row ! (4 * x + 2)) (row ! (4 * x + 3))]"
proof -
  have n: "nat (4 * int x) = 4 * x" "nat (4 * int x + 1) = 4 * x + 1"
    "nat (4 * int x + 2) = 4 * x + 2" "nat (4 * int x + 3) = 4 * x + 3"
    by linarith+
  from assms(2) have "4 * int x + 3 < int (length row)"
    "b + (3 * int x + 2) < int (length s)"
    and u: "u = s[nat (b + 3 * int x) := Blend g (row ! (4 * x)) (row ! (4 * x + 3)),
              nat (b + (3 * int x + 1)) := Blend g (row ! (4 * x + 1)) (row ! (4 * x + 3)),
              nat (b + (3 * int x + 2)) := Blend g (row ! (4 * x + 2)) (row ! (4 * x + 3))]"
    by (auto simp add: Inr_iffs n)
  moreover have "nat b + 3 * x + 2 < length s"
    using assms(1) \<open>b + (3 * int x + 2) < int (length s)\<close> by linarith
  moreover have "4 * x + 3 < length row"
    using \<open>4 * int x + 3 < int (length row)\<close> by linarith
  ultimately show ?thesis
    by (simp add: nat_index [OF assms(1)])
qed


lemma ReadPNG_row2_ok:
  assumes "ReadPNG_row2 g rows xsize y rgb = Inr t"
  shows "y < length rows \<and> length t = length rgb
    \<and> (\<forall>x<nat xsize. 2 * x + 1 < length (rows ! y)
          \<and> 3 * y * nat xsize + 3 * x + 2 < length rgb
          \<and> t ! (3 * y * nat xsize + 3 * x)
              = Blend g (rows ! y ! (2 * x)) (rows ! y ! (2 * x + 1))
          \<and> t ! (3 * y * nat xsize + 3 * x + 1)
              = Blend g (rows ! y ! (2 * x)) (rows ! y ! (2 * x + 1))
          \<and> t ! (3 * y * nat xsize + 3 * x + 2)
              = Blend g (rows ! y ! (2 * x)) (rows ! y ! (2 * x + 1)))
    \<and> (\<forall>j<3 * y * nat xsize. t ! j = rgb ! j)"
proof -
  let ?body = "\<lambda>x rgb.
       bindE (bindE (imul 2 (int x)) (load (rows ! y))) (\<lambda>v.
       bindE (bindE (bindE (imul 2 (int x)) (\<lambda>t. iadd t 1)) (load (rows ! y))) (\<lambda>a.
       let gray = Blend g v a in
       bindE (imul 3 (int x)) (\<lambda>x3.
       bindE (bindE (iadd x3 0) (\<lambda>off. store (3 * int y * xsize) off gray rgb)) (\<lambda>rgb.
       bindE (bindE (iadd x3 1) (\<lambda>off. store (3 * int y * xsize) off gray rgb)) (\<lambda>rgb.
       bindE (iadd x3 2) (\<lambda>off. store (3 * int y * xsize) off gray rgb))))))"
  let ?px = "\<lambda>x (k::nat). Blend g (rows ! y ! (2 * x)) (rows ! y ! (2 * x + 1))"
  from assms have y: "y < length rows"
    and run: "for_loop (nat xsize) ?body rgb = Inr t"
    by (auto simp add: ReadPNG_row2_def Inr_iffs)
  have body: "2 * x + 1 < length (rows ! y) \<and> 3 * y * nat xsize + 3 * x + 2 < length s
      \<and> u = s[3 * y * nat xsize + 3 * x := ?px x 0,
              3 * y * nat xsize + 3 * x + 1 := ?px x 1,
              3 * y * nat xsize + 3 * x + 2 := ?px x 2]"
    if "x < nat xsize" "?body x s = Inr u" for x s u
    using row2_body [OF row_out_nonneg(1) [OF that(1), of y] that(2)]
    by (simp only: row_out_nonneg(2) [OF that(1), of y])
  show ?thesis
    using for_loop_pixels [where body = ?body and n = "nat xsize" and rgb = rgb and rgb' = t
        and base = "3 * y * nat xsize" and px = ?px
        and Q = "\<lambda>x. 2 * x + 1 < length (rows ! y)", OF body run] y
    by simp
qed

lemma ReadPNG_row4_ok:
  assumes "ReadPNG_row4 g rows xsize y rgb = Inr t"
  shows "y < length rows \<and> length t = length rgb
    \<and> (\<forall>x<nat xsize. 4 * x + 3 < length (rows ! y)
          \<and> 3 * y * nat xsize + 3 * x + 2 < length rgb
          \<and> t ! (3 * y * nat xsize + 3 * x)
              = Blend g (rows ! y ! (4 * x)) (rows ! y ! (4 * x + 3))
          \<and> t ! (3 * y * nat xsize + 3 * x + 1)
              = Blend g (rows ! y ! (4 * x + 1)) (rows ! y ! (4 * x + 3))
          \<and> t ! (3 * y * nat xsize + 3 * x + 2)
              = Blend g (rows ! y ! (4 * x + 2)) (rows ! y ! (4 * x + 3)))
    \<and> (\<forall>j<3 * y * nat xsize. t ! j = rgb ! j)"
proof -
  let ?body = "\<lambda>x rgb.
       bindE (imul 4 (int x)) (\<lambda>x4.
       bindE (bindE (iadd x4 3) (load (rows ! y))) (\<lambda>alpha.
       bindE (imul 3 (int x)) (\<lambda>x3.
       bindE (bindE (bindE (iadd x4 0) (load (rows ! y))) (\<lambda>v.
              bindE (iadd x3 0)
                (\<lambda>off. store (3 * int y * xsize) off (Blend g v alpha) rgb))) (\<lambda>rgb.
       bindE (bindE (bindE (iadd x4 1) (load (rows ! y))) (\<lambda>v.
              bindE (iadd x3 1)
                (\<lambda>off. store (3 * int y * xsize) off (Blend g v alpha) rgb))) (\<lambda>rgb.
       bindE (bindE (iadd x4 2) (load (rows ! y))) (\<lambda>v.
              bindE (iadd x3 2)
                (\<lambda>off. store (3 * int y * xsize) off (Blend g v alpha) rgb)))))))"
  let ?px = "\<lambda>x k. Blend g (rows ! y ! (4 * x + k)) (rows ! y ! (4 * x + 3))"
  from assms have y: "y < length rows"
    and run: "for_loop (nat xsize) ?body rgb = Inr t"
    by (auto simp add: ReadPNG_row4_def Inr_iffs)
  have body: "4 * x + 3 < length (rows ! y) \<and> 3 * y * nat xsize + 3 * x + 2 < length s
      \<and> u = s[3 * y * nat xsize + 3 * x := ?px x 0,
              3 * y * nat xsize + 3 * x + 1 := ?px x 1,
              3 * y * nat xsize + 3 * x + 2 := ?px x 2]"
    if "x < nat xsize" "?body x s = Inr u" for x s u
    using row4_body [OF row_out_nonneg(1) [OF that(1), of y] that(2)]
    by (simp add: row_out_nonneg(2) [OF that(1), of y])
  show ?thesis
    using for_loop_pixels [where body = ?body and n = "nat xsize" and rgb = rgb and rgb' = t
        and base = "3 * y * nat xsize" and px = ?px
        and Q = "\<lambda>x. 4 * x + 3 < length (rows ! y)", OF body run] y
    by simp
qed

lemma ReadPNG_row3_ok:
  assumes "ReadPNG_row3 rows xsize y rgb = Inr t"
  shows "y < length rows \<and> length t = length rgb
    \<and> (\<forall>x<nat xsize. 3 * x + 2 < length (rows ! y)
          \<and> 3 * y * nat xsize + 3 * x + 2 < length rgb
          \<and> t ! (3 * y * nat xsize + 3 * x) = rows ! y ! (3 * x)
          \<and> t ! (3 * y * nat xsize + 3 * x + 1) = rows ! y ! (3 * x + 1)
          \<and> t ! (3 * y * nat xsize + 3 * x + 2) = rows ! y ! (3 * x + 2))
    \<and> (\<forall>j<3 * y * nat xsize. t ! j = rgb ! j)"
proof -
  let ?b = "3 * int y * xsize" and ?n = "3 * xsize" and ?B = "3 * y * nat xsize"
  let ?row = "rows ! y"
  from assms have y: "y < length rows" and n0: "0 \<le> ?n" and b0: "0 \<le> ?b"
    and nr: "?n \<le> int (length ?row)" and bn: "?b + ?n \<le> int (length rgb)"
    and t: "t = take (nat ?b) rgb @ take (nat ?n) ?row @ drop (nat (?b + ?n)) rgb"
    by (auto simp add: ReadPNG_row3_def Inr_iffs memcpy_row_Inr_iff)
  have x0: "0 \<le> xsize" using n0 by simp
  have B: "nat ?b = ?B" using x0 by (simp add: nat_mult_distrib)
  have N: "nat ?n = 3 * nat xsize" using x0 by (simp add: nat_mult_distrib)
  have BN: "nat (?b + ?n) = ?B + 3 * nat xsize"
    using b0 n0 B N by (simp add: nat_add_distrib)
  have t': "t = take ?B rgb @ take (3 * nat xsize) ?row @ drop (?B + 3 * nat xsize) rgb"
    using t B N BN by simp
  have lr: "3 * nat xsize \<le> length ?row" using nr x0 by linarith
  have ls: "?B + 3 * nat xsize \<le> length rgb" using bn b0 n0 B N by linarith
  have len: "length t = length rgb"
    using t' lr ls by simp
  have content: "t ! (?B + j) = ?row ! j" if "j < 3 * nat xsize" for j
    using that t' lr ls by (simp add: nth_append)
  have frame: "t ! j = rgb ! j" if "j < ?B" for j
    using that t' ls by (simp add: nth_append)
  show ?thesis
  proof (intro conjI allI impI)
    fix x assume x: "x < nat xsize"
    then have j: "3 * x < 3 * nat xsize" "3 * x + 1 < 3 * nat xsize"
      "3 * x + 2 < 3 * nat xsize"
      by simp_all
    show "3 * x + 2 < length ?row" using j lr by linarith
    show "?B + 3 * x + 2 < length rgb" using j ls by linarith
    show "t ! (?B + 3 * x) = ?row ! (3 * x)"
      using content [OF j(1)] by simp
    show "t ! (?B + 3 * x + 1) = ?row ! (3 * x + 1)"
      using content [OF j(2)] by (simp add: add.assoc)
    show "t ! (?B + 3 * x + 2) = ?row ! (3 * x + 2)"
      using content [OF j(3)] by (simp add: add.assoc)
  qed (use y len frame in simp_all)
qed

lemma pixel_index_bound:
  fixes y h x w :: nat
  assumes "y < h" "x < w"
  shows "3 * y * w + 3 * x + 2 < 3 * h * w"
proof -
  have "(y + 1) * w \<le> h * w"
    using assms(1) by (intro mult_right_mono) simp_all
  then have "3 * y * w + 3 * w \<le> 3 * h * w"
    by (simp add: algebra_simps)
  moreover have "3 * x + 2 < 3 * w"
    using assms(2) by simp
  ultimately show ?thesis by linarith
qed

lemma for_loop_rows:
  fixes px :: "nat \<Rightarrow> nat \<Rightarrow> nat \<Rightarrow> uint8_t"
  assumes row: "\<And>y s t. y < h \<Longrightarrow> row y s = Inr t \<Longrightarrow>
      Q y \<and> length t = length s
      \<and> (\<forall>x<w. R y x \<and> 3 * y * w + 3 * x + 2 < length s
            \<and> t ! (3 * y * w + 3 * x) = px y x 0
            \<and> t ! (3 * y * w + 3 * x + 1) = px y x 1
            \<and> t ! (3 * y * w + 3 * x + 2) = px y x 2)
      \<and> (\<forall>j<3 * y * w. t ! j = s ! j)"
    and run: "for_loop h row rgb = Inr rgb'"
  shows "length rgb' = length rgb
    \<and> (\<forall>y<h. Q y
          \<and> (\<forall>x<w. R y x \<and> 3 * y * w + 3 * x + 2 < length rgb
                \<and> rgb' ! (3 * y * w + 3 * x) = px y x 0
                \<and> rgb' ! (3 * y * w + 3 * x + 1) = px y x 1
                \<and> rgb' ! (3 * y * w + 3 * x + 2) = px y x 2))"
  using row run
proof (induction h arbitrary: rgb')
  case 0
  then show ?case by simp
next
  case (Suc h)
  from Suc.prems(2) obtain mid where mid: "for_loop h row rgb = Inr mid"
    and last: "row h mid = Inr rgb'"
    by (auto simp add: bindE_Inr_iff)
  have IH: "length mid = length rgb
    \<and> (\<forall>y<h. Q y
          \<and> (\<forall>x<w. R y x \<and> 3 * y * w + 3 * x + 2 < length rgb
                \<and> mid ! (3 * y * w + 3 * x) = px y x 0
                \<and> mid ! (3 * y * w + 3 * x + 1) = px y x 1
                \<and> mid ! (3 * y * w + 3 * x + 2) = px y x 2))"
    by (rule Suc.IH [OF _ mid]) (rule Suc.prems(1), simp_all)
  have step: "Q h \<and> length rgb' = length mid
      \<and> (\<forall>x<w. R h x \<and> 3 * h * w + 3 * x + 2 < length mid
            \<and> rgb' ! (3 * h * w + 3 * x) = px h x 0
            \<and> rgb' ! (3 * h * w + 3 * x + 1) = px h x 1
            \<and> rgb' ! (3 * h * w + 3 * x + 2) = px h x 2)
      \<and> (\<forall>j<3 * h * w. rgb' ! j = mid ! j)"
    by (rule Suc.prems(1) [OF _ last]) simp
  show ?case
  proof (intro conjI allI impI)
    show "length rgb' = length rgb" using IH step by simp
  next
    fix y assume y: "y < Suc h"
    show "Q y" using y IH step by (cases "y = h") auto
    fix x assume x: "x < w"
    show "R y x" using y x IH step by (cases "y = h") auto
    show "3 * y * w + 3 * x + 2 < length rgb" using y x IH step by (cases "y = h") auto
    have old: "3 * y * w + 3 * x + 2 < 3 * h * w" if "y < h"
      using pixel_index_bound [OF that x] .
    show "rgb' ! (3 * y * w + 3 * x) = px y x 0"
    proof (cases "y = h")
      case True
      then show ?thesis using x step by simp
    next
      case False
      then have "y < h" using y by simp
      then have "3 * y * w + 3 * x < 3 * h * w" using old by simp
      then show ?thesis using \<open>y < h\<close> x IH step by simp
    qed
    show "rgb' ! (3 * y * w + 3 * x + 1) = px y x 1"
    proof (cases "y = h")
      case True
      then show ?thesis using x step by simp
    next
      case False
      then have "y < h" using y by simp
      then have "3 * y * w + 3 * x + 1 < 3 * h * w" using old by simp
      then show ?thesis using \<open>y < h\<close> x IH step by simp
    qed
    show "rgb' ! (3 * y * w + 3 * x + 2) = px y x 2"
    proof (cases "y = h")
      case True
      then show ?thesis using x step by simp
    next
      case False
      then have "y < h" using y by simp
      then have "3 * y * w + 3 * x + 2 < 3 * h * w" using old by simp
      then show ?thesis using \<open>y < h\<close> x IH step by simp
    qed
  qed
qed


lemma ReadPNG_rows_ok:
  assumes "c = 1 \<and> row = ReadPNG_row1 rows xsize \<or> c = 2 \<and> row = ReadPNG_row2 g rows xsize
      \<or> c = 3 \<and> row = ReadPNG_row3 rows xsize \<or> c = 4 \<and> row = ReadPNG_row4 g rows xsize"
    and run: "for_loop h row rgb0 = Inr rgb"
  shows "length rgb = length rgb0
    \<and> (\<forall>y<h. y < length rows
          \<and> (\<forall>x<nat xsize. nat c * (x + 1) \<le> length (rows ! y)
                \<and> 3 * y * nat xsize + 3 * x + 2 < length rgb0
                \<and> rgb ! (3 * y * nat xsize + 3 * x) = png_pixel_spec g c (rows ! y) x 0
                \<and> rgb ! (3 * y * nat xsize + 3 * x + 1) = png_pixel_spec g c (rows ! y) x 1
                \<and> rgb ! (3 * y * nat xsize + 3 * x + 2) = png_pixel_spec g c (rows ! y) x 2))"
proof -
  have row: "y < length rows \<and> length t = length s
      \<and> (\<forall>x<nat xsize. nat c * (x + 1) \<le> length (rows ! y)
            \<and> 3 * y * nat xsize + 3 * x + 2 < length s
            \<and> t ! (3 * y * nat xsize + 3 * x) = png_pixel_spec g c (rows ! y) x 0
            \<and> t ! (3 * y * nat xsize + 3 * x + 1) = png_pixel_spec g c (rows ! y) x 1
            \<and> t ! (3 * y * nat xsize + 3 * x + 2) = png_pixel_spec g c (rows ! y) x 2)
      \<and> (\<forall>j<3 * y * nat xsize. t ! j = s ! j)"
    if yh: "y < h" and rt: "row y s = Inr t" for y s t
  proof -
    consider (1) "c = 1" "ReadPNG_row1 rows xsize y s = Inr t"
      | (2) "c = 2" "ReadPNG_row2 g rows xsize y s = Inr t"
      | (3) "c = 3" "ReadPNG_row3 rows xsize y s = Inr t"
      | (4) "c = 4" "ReadPNG_row4 g rows xsize y s = Inr t"
      using assms(1) rt by auto
    then show ?thesis
    proof cases
      case 1
      show ?thesis
        using ReadPNG_row1_ok [OF 1(2)] by (auto simp add: png_pixel_spec_def 1(1))
    next
      case 2
      show ?thesis
        using ReadPNG_row2_ok [OF 2(2)] by (auto simp add: png_pixel_spec_def 2(1))
    next
      case 3
      show ?thesis
        using ReadPNG_row3_ok [OF 3(2)] by (auto simp add: png_pixel_spec_def 3(1))
    next
      case 4
      show ?thesis
        using ReadPNG_row4_ok [OF 4(2)] by (auto simp add: png_pixel_spec_def 4(1))
    qed
  qed
  show ?thesis
    by (rule for_loop_rows [where row = row and Q = "\<lambda>y. y < length rows"
          and R = "\<lambda>y x. nat c * (x + 1) \<le> length (rows ! y)"
          and px = "\<lambda>y. png_pixel_spec g c (rows ! y)" and w = "nat xsize", OF row run])
qed


lemma ReadPNG_Some:
  assumes "libpng data = Some png"
    and "ReadPNG g libpng data = Inr (Some (xsize, ysize, rgb))"
  shows "xsize = sint (png_image_width png) \<and> ysize = sint (png_image_height png)
    \<and> 0 \<le> 3 * xsize * ysize
    \<and> (\<exists>row. (uint (png_channels png) = 1 \<and> row = ReadPNG_row1 (png_rows png) xsize
             \<or> uint (png_channels png) = 2 \<and> row = ReadPNG_row2 g (png_rows png) xsize
             \<or> uint (png_channels png) = 3 \<and> row = ReadPNG_row3 (png_rows png) xsize
             \<or> uint (png_channels png) = 4 \<and> row = ReadPNG_row4 g (png_rows png) xsize)
          \<and> for_loop (nat ysize) row (replicate (nat (3 * xsize * ysize)) 0) = Inr rgb)"
  using assms
  by (auto simp add: ReadPNG_def Let_def bindE_Inr_iff imul_Inr_iff resize_Inr_iff
      mult.commute split: if_splits)

lemma ReadPNG_other_channels:
  assumes "libpng data = Some png"
    and "uint (png_channels png) \<notin> {1, 2, 3, 4}"
    and "0 < sint (png_image_width png)" "0 < sint (png_image_height png)"
    and "3 * sint (png_image_width png) * sint (png_image_height png) \<le> INT_MAX"
  shows "ReadPNG g libpng data = Inr None"
proof -
  let ?w = "sint (png_image_width png)" and ?h = "sint (png_image_height png)"
  have "3 * ?w * 1 \<le> 3 * ?w * ?h"
    using assms(3,4) by (intro mult_left_mono) simp_all
  then have "3 * ?w \<le> 3 * ?w * ?h"
    by simp
  then have w: "3 * ?w \<le> INT_MAX"
    using assms(5) by linarith
  have w': "INT_MIN \<le> 3 * ?w"
    using assms(3) by (simp add: INT_MIN_def)
  have h0: "0 \<le> 3 * ?w * ?h"
    using assms(3,4) by simp
  then have h: "INT_MIN \<le> 3 * ?w * ?h" "0 \<le> 3 * ?w * ?h"
    unfolding INT_MIN_def by linarith+
  show ?thesis
    using assms(1,2,5) w w' h
    by (simp add: ReadPNG_def Let_def imul_def int32_def resize_def)
qed

lemma for_loop_total:
  assumes step: "\<And>i s. i < n \<Longrightarrow> length s = L \<Longrightarrow> \<exists>t. body i s = Inr t \<and> length t = L"
    and "length s = L"
  shows "\<exists>t. for_loop n body s = Inr t \<and> length t = L"
  using step
proof (induction n)
  case 0
  then show ?case using assms(2) by simp
next
  case (Suc n)
  then obtain mid where mid: "for_loop n body s = Inr mid" "length mid = L"
    by (metis less_SucI)
  from Suc.prems [of n mid] mid(2) obtain t where "body n mid = Inr t" "length t = L"
    by auto
  then show ?case using mid by simp
qed

lemma row1_body_total:
  assumes "0 \<le> b" "int x < w" "b + 3 * w \<le> int (length s)" "int (length s) \<le> INT_MAX"
    and "w \<le> int (length row)"
  shows "\<exists>u. bindE (load row (int x)) (\<lambda>gray.
         bindE (imul 3 (int x)) (\<lambda>x3.
         bindE (bindE (iadd x3 0) (\<lambda>off. store b off gray s)) (\<lambda>rgb.
         bindE (bindE (iadd x3 1) (\<lambda>off. store b off gray rgb)) (\<lambda>rgb.
         bindE (iadd x3 2) (\<lambda>off. store b off gray rgb))))) = Inr u
       \<and> length u = length s"
  using assms
  by (simp add: load_def imul_def iadd_def int32_def store_def Let_def INT_MIN_def INT_MAX_def)

lemma row2_body_total:
  assumes "0 \<le> b" "int x < w" "b + 3 * w \<le> int (length s)" "int (length s) \<le> INT_MAX"
    and "2 * w \<le> int (length row)" "2 * w \<le> INT_MAX"
  shows "\<exists>u. bindE (bindE (imul 2 (int x)) (load row)) (\<lambda>v.
         bindE (bindE (bindE (imul 2 (int x)) (\<lambda>t. iadd t 1)) (load row)) (\<lambda>a.
         let gray = Blend g v a in
         bindE (imul 3 (int x)) (\<lambda>x3.
         bindE (bindE (iadd x3 0) (\<lambda>off. store b off gray s)) (\<lambda>rgb.
         bindE (bindE (iadd x3 1) (\<lambda>off. store b off gray rgb)) (\<lambda>rgb.
         bindE (iadd x3 2) (\<lambda>off. store b off gray rgb)))))) = Inr u
       \<and> length u = length s"
  using assms
  by (simp add: load_def imul_def iadd_def int32_def store_def Let_def INT_MIN_def INT_MAX_def)

lemma row4_body_total:
  assumes "0 \<le> b" "int x < w" "b + 3 * w \<le> int (length s)" "int (length s) \<le> INT_MAX"
    and "4 * w \<le> int (length row)" "4 * w \<le> INT_MAX"
  shows "\<exists>u. bindE (imul 4 (int x)) (\<lambda>x4.
         bindE (bindE (iadd x4 3) (load row)) (\<lambda>alpha.
         bindE (imul 3 (int x)) (\<lambda>x3.
         bindE (bindE (bindE (iadd x4 0) (load row)) (\<lambda>v.
                bindE (iadd x3 0) (\<lambda>off. store b off (Blend g v alpha) s))) (\<lambda>rgb.
         bindE (bindE (bindE (iadd x4 1) (load row)) (\<lambda>v.
                bindE (iadd x3 1) (\<lambda>off. store b off (Blend g v alpha) rgb))) (\<lambda>rgb.
         bindE (bindE (iadd x4 2) (load row)) (\<lambda>v.
                bindE (iadd x3 2) (\<lambda>off. store b off (Blend g v alpha) rgb))))))) = Inr u
       \<and> length u = length s"
  using assms
  by (simp add: load_def imul_def iadd_def int32_def store_def Let_def INT_MIN_def INT_MAX_def)


lemma memcpy_row_total:
  assumes "0 \<le> b" "0 \<le> n" "n \<le> int (length row)" "b + n \<le> int (length s)"
  shows "\<exists>t. memcpy_row b row n s = Inr t \<and> length t = length s"
proof -
  have "nat b + nat n = nat (b + n)" "nat (b + n) \<le> length s" "nat n \<le> length row"
    "nat b \<le> length s"
    using assms by linarith+
  then show ?thesis
    using assms by (simp add: memcpy_row_def min_absorb2)
qed

lemma ReadPNG_row_total:
  assumes c: "c = 1 \<and> row = ReadPNG_row1 rows xsize \<or> c = 2 \<and> row = ReadPNG_row2 g rows xsize
      \<or> c = 3 \<and> row = ReadPNG_row3 rows xsize \<or> c = 4 \<and> row = ReadPNG_row4 g rows xsize"
    and y: "y < length rows"
    and len: "c * xsize \<le> int (length (rows ! y))" and fit: "c * xsize \<le> INT_MAX"
    and pos: "0 < xsize"
    and room: "3 * int y * xsize + 3 * xsize \<le> int (length s)"
    and small: "int (length s) \<le> INT_MAX"
  shows "\<exists>t. row y s = Inr t \<and> length t = length s"
proof -
  let ?b = "3 * int y * xsize"
  have "3 * int y * 1 \<le> 3 * int y * xsize"
    using pos by (intro mult_left_mono) simp_all
  then have y3: "3 * int y \<le> ?b"
    by simp
  have b0: "0 \<le> ?b"
    using pos by simp
  have bmax: "?b \<le> INT_MAX" "3 * int y \<le> INT_MAX" "3 * xsize \<le> INT_MAX"
    using y3 room small pos b0 by linarith+
  have bmin: "INT_MIN \<le> ?b" "INT_MIN \<le> 3 * int y"
    using b0 unfolding INT_MIN_def by linarith+
  have base: "row_at rows y = Inr (rows ! y)"
    "bindE (imul 3 (int y)) (\<lambda>t. imul t xsize) = Inr ?b"
    using y bmax bmin by (simp_all add: row_at_def imul_def int32_def)
  have xw: "int x < xsize" if "x < nat xsize" for x
    using that by linarith
  consider (1) "c = 1" "row = ReadPNG_row1 rows xsize"
    | (2) "c = 2" "row = ReadPNG_row2 g rows xsize"
    | (3) "c = 3" "row = ReadPNG_row3 rows xsize"
    | (4) "c = 4" "row = ReadPNG_row4 g rows xsize"
    using c by blast
  then show ?thesis
  proof cases
    case 1
    have l: "xsize \<le> int (length (rows ! y))" using len 1(1) by simp
    show ?thesis
      unfolding 1(2) ReadPNG_row1_def base bindE_simps
      apply (rule for_loop_total [OF _ refl])
      subgoal for i sa
        using row1_body_total [where b = ?b and x = i and w = xsize and s = sa
            and row = "rows ! y"] b0 xw [of i] room small l
        by simp
      done
  next
    case 2
    have l: "2 * xsize \<le> int (length (rows ! y))" "2 * xsize \<le> INT_MAX"
      using len fit 2(1) by simp_all
    show ?thesis
      unfolding 2(2) ReadPNG_row2_def base bindE_simps
      apply (rule for_loop_total [OF _ refl])
      subgoal for i sa
        using row2_body_total [where b = ?b and x = i and w = xsize and s = sa
            and row = "rows ! y" and g = g] b0 xw [of i] room small l
        by simp
      done
  next
    case 3
    have l: "3 * xsize \<le> int (length (rows ! y))"
      using len 3(1) by simp
    have n: "imul 3 xsize = Inr (3 * xsize)"
      using bmax pos by (simp add: imul_def int32_def INT_MIN_def)
    show ?thesis
      unfolding 3(2) ReadPNG_row3_def base bindE_simps n
      using memcpy_row_total [where b = ?b and n = "3 * xsize" and row = "rows ! y"
          and s = s] l room b0 pos
      by simp
  next
    case 4
    have l: "4 * xsize \<le> int (length (rows ! y))" "4 * xsize \<le> INT_MAX"
      using len fit 4(1) by simp_all
    show ?thesis
      unfolding 4(2) ReadPNG_row4_def base bindE_simps
      apply (rule for_loop_total [OF _ refl])
      subgoal for i sa
        using row4_body_total [where b = ?b and x = i and w = xsize and s = sa
            and row = "rows ! y" and g = g] b0 xw [of i] room small l
        by simp
      done
  qed
qed


lemma ReadPNG_accepts:
  assumes png: "libpng data = Some png"
    and c: "uint (png_channels png) \<in> {1, 2, 3, 4}"
    and pos: "0 < sint (png_image_width png)" "0 < sint (png_image_height png)"
    and fit: "3 * sint (png_image_width png) * sint (png_image_height png) \<le> INT_MAX"
      "uint (png_channels png) * sint (png_image_width png) \<le> INT_MAX"
    and rows: "length (png_rows png) = nat (sint (png_image_height png))"
      "\<forall>row \<in> set (png_rows png).
         int (length row) = uint (png_channels png) * sint (png_image_width png)"
  shows "\<exists>rgb. ReadPNG g libpng data
    = Inr (Some (sint (png_image_width png), sint (png_image_height png), rgb))"
proof -
  let ?W = "sint (png_image_width png)" and ?H = "sint (png_image_height png)"
  let ?c = "uint (png_channels png)"
  let ?rgb0 = "replicate (nat (3 * ?W * ?H)) (0 :: uint8_t)"
  have "3 * ?W * 1 \<le> 3 * ?W * ?H"
    using pos by (intro mult_left_mono) simp_all
  then have w3: "3 * ?W \<le> 3 * ?W * ?H"
    by simp
  have nn: "0 \<le> 3 * ?W * ?H"
    using pos by simp
  have r: "INT_MIN \<le> 3 * ?W" "3 * ?W \<le> INT_MAX" "INT_MIN \<le> 3 * ?W * ?H"
    using w3 nn fit(1) pos(1) unfolding INT_MIN_def by linarith+
  have alloc: "bindE (bindE (imul 3 ?W) (\<lambda>t. imul t ?H)) resize = Inr ?rgb0"
    using r fit(1) nn by (simp add: imul_def int32_def resize_def)
  have L: "int (length ?rgb0) = 3 * ?W * ?H"
    using nn by simp
  have loop: "\<exists>t. for_loop (nat ?H) row ?rgb0 = Inr t \<and> length t = length ?rgb0"
    if row: "?c = 1 \<and> row = ReadPNG_row1 (png_rows png) ?W
        \<or> ?c = 2 \<and> row = ReadPNG_row2 g (png_rows png) ?W
        \<or> ?c = 3 \<and> row = ReadPNG_row3 (png_rows png) ?W
        \<or> ?c = 4 \<and> row = ReadPNG_row4 g (png_rows png) ?W" for row
  proof (rule for_loop_total [OF _ refl])
    fix y and s :: bytes
    assume y: "y < nat ?H" and s: "length s = length ?rgb0"
    have yl: "y < length (png_rows png)"
      using y rows(1) by simp
    then have len: "?c * ?W \<le> int (length (png_rows png ! y))"
      using rows(2) by simp
    have "(int y + 1) * ?W \<le> ?H * ?W"
      using y pos(1) by (intro mult_right_mono) linarith+
    then have "3 * int y * ?W + 3 * ?W \<le> 3 * ?W * ?H"
      by (simp add: algebra_simps)
    then have room: "3 * int y * ?W + 3 * ?W \<le> int (length s)"
      using L s by simp
    have small: "int (length s) \<le> INT_MAX"
      using L s fit(1) by simp
    show "\<exists>t. row y s = Inr t \<and> length t = length ?rgb0"
      using ReadPNG_row_total [OF row yl len fit(2) pos(1) room small] s by simp
  qed
  consider "?c = 1" | "?c = 2" | "?c = 3" | "?c = 4"
    using c by auto
  then show ?thesis
  proof cases
    case 1
    from loop [of "ReadPNG_row1 (png_rows png) ?W"] 1 obtain t where
      "for_loop (nat ?H) (ReadPNG_row1 (png_rows png) ?W) ?rgb0 = Inr t"
      by auto
    then show ?thesis
      using png 1 unfolding ReadPNG_def by (simp add: Let_def alloc)
  next
    case 2
    from loop [of "ReadPNG_row2 g (png_rows png) ?W"] 2 obtain t where
      "for_loop (nat ?H) (ReadPNG_row2 g (png_rows png) ?W) ?rgb0 = Inr t"
      by auto
    then show ?thesis
      using png 2 unfolding ReadPNG_def by (simp add: Let_def alloc)
  next
    case 3
    from loop [of "ReadPNG_row3 (png_rows png) ?W"] 3 obtain t where
      "for_loop (nat ?H) (ReadPNG_row3 (png_rows png) ?W) ?rgb0 = Inr t"
      by auto
    then show ?thesis
      using png 3 unfolding ReadPNG_def by (simp add: Let_def alloc)
  next
    case 4
    from loop [of "ReadPNG_row4 g (png_rows png) ?W"] 4 obtain t where
      "for_loop (nat ?H) (ReadPNG_row4 g (png_rows png) ?W) ?rgb0 = Inr t"
      by auto
    then show ?thesis
      using png 4 unfolding ReadPNG_def by (simp add: Let_def alloc)
  qed
qed

text \<open>
  C8: when \<^verbatim>\<open>ReadPNG\<close> returns true the channel count is 1, 2, 3 or 4, the dimensions
  are the image's, and every pixel's three output bytes are the ones the specification
  gives for that channel count, computed from bytes that lie inside the pixel's row; with
  any other channel count \<^verbatim>\<open>ReadPNG\<close> never returns true, and returns false whenever the
  dimensions are positive and the buffer size fits an \<^verbatim>\<open>int\<close>. With a channel count of
  1, 2, 3 or 4 it does return true on every image libpng can hand over: positive
  dimensions, one row per line, each of channels times width bytes, where the buffer
  size and the row size fit an \<^verbatim>\<open>int\<close>.
\<close>

theorem ReadPNG_channel_layouts:
  assumes "libpng data = Some png"
  shows "(ReadPNG g libpng data = Inr (Some (xsize, ysize, rgb))
      \<longrightarrow> uint (png_channels png) \<in> {1, 2, 3, 4}
          \<and> xsize = sint (png_image_width png) \<and> ysize = sint (png_image_height png)
          \<and> (\<forall>y<nat ysize. \<forall>x<nat xsize. \<forall>k<3.
                y < length (png_rows png)
                \<and> unat (png_channels png) * (x + 1) \<le> length (png_rows png ! y)
                \<and> 3 * y * nat xsize + 3 * x + k < length rgb
                \<and> rgb ! (3 * y * nat xsize + 3 * x + k)
                    = png_pixel_spec g (uint (png_channels png)) (png_rows png ! y) x k))
    \<and> (uint (png_channels png) \<notin> {1, 2, 3, 4}
      \<longrightarrow> (\<forall>r. ReadPNG g libpng data \<noteq> Inr (Some r))
          \<and> (0 < sint (png_image_width png) \<and> 0 < sint (png_image_height png)
              \<and> 3 * sint (png_image_width png) * sint (png_image_height png) \<le> INT_MAX
             \<longrightarrow> ReadPNG g libpng data = Inr None))
    \<and> (uint (png_channels png) \<in> {1, 2, 3, 4}
        \<and> 0 < sint (png_image_width png) \<and> 0 < sint (png_image_height png)
        \<and> 3 * sint (png_image_width png) * sint (png_image_height png) \<le> INT_MAX
        \<and> uint (png_channels png) * sint (png_image_width png) \<le> INT_MAX
        \<and> length (png_rows png) = nat (sint (png_image_height png))
        \<and> (\<forall>row \<in> set (png_rows png).
              int (length row) = uint (png_channels png) * sint (png_image_width png))
      \<longrightarrow> (\<exists>rgb'. ReadPNG g libpng data
            = Inr (Some (sint (png_image_width png), sint (png_image_height png), rgb'))))"
proof (intro conjI impI allI)
  assume ok: "ReadPNG g libpng data = Inr (Some (xsize, ysize, rgb))"
  note S = ReadPNG_Some [where libpng = libpng and data = data, OF assms ok]
  show "uint (png_channels png) \<in> {1, 2, 3, 4}" using S by auto
  show "xsize = sint (png_image_width png)" "ysize = sint (png_image_height png)"
    using S by simp_all
  fix y x k :: nat
  assume y: "y < nat ysize" and x: "x < nat xsize" and k: "k < 3"
  from S obtain row where
    row: "uint (png_channels png) = 1 \<and> row = ReadPNG_row1 (png_rows png) xsize
        \<or> uint (png_channels png) = 2 \<and> row = ReadPNG_row2 g (png_rows png) xsize
        \<or> uint (png_channels png) = 3 \<and> row = ReadPNG_row3 (png_rows png) xsize
        \<or> uint (png_channels png) = 4 \<and> row = ReadPNG_row4 g (png_rows png) xsize"
    and run: "for_loop (nat ysize) row (replicate (nat (3 * xsize * ysize)) 0) = Inr rgb"
    by blast
  note R = ReadPNG_rows_ok [OF row run]
  have len: "length rgb = length (replicate (nat (3 * xsize * ysize)) (0 :: uint8_t))"
    using R by blast
  have px: "y < length (png_rows png)
    \<and> nat (uint (png_channels png)) * (x + 1) \<le> length (png_rows png ! y)
    \<and> 3 * y * nat xsize + 3 * x + 2 < length rgb
    \<and> rgb ! (3 * y * nat xsize + 3 * x)
        = png_pixel_spec g (uint (png_channels png)) (png_rows png ! y) x 0
    \<and> rgb ! (3 * y * nat xsize + 3 * x + 1)
        = png_pixel_spec g (uint (png_channels png)) (png_rows png ! y) x 1
    \<and> rgb ! (3 * y * nat xsize + 3 * x + 2)
        = png_pixel_spec g (uint (png_channels png)) (png_rows png ! y) x 2"
    using R y x len by simp
  have k3: "k = 0 \<or> k = 1 \<or> k = 2" using k by linarith
  show "y < length (png_rows png)" using px by simp
  show "unat (png_channels png) * (x + 1) \<le> length (png_rows png ! y)"
    using px by simp
  show "3 * y * nat xsize + 3 * x + k < length rgb" using px k by linarith
  show "rgb ! (3 * y * nat xsize + 3 * x + k)
      = png_pixel_spec g (uint (png_channels png)) (png_rows png ! y) x k"
    using px k3 by auto
next
  fix r
  assume c: "uint (png_channels png) \<notin> {1, 2, 3, 4}"
  show "ReadPNG g libpng data \<noteq> Inr (Some r)"
  proof
    assume "ReadPNG g libpng data = Inr (Some r)"
    then have "uint (png_channels png) \<in> {1, 2, 3, 4}"
      using ReadPNG_Some [where libpng = libpng and data = data and g = g
          and xsize = "fst r" and ysize = "fst (snd r)" and rgb = "snd (snd r)", OF assms]
      by auto
    then show False using c by simp
  qed
next
  assume "uint (png_channels png) \<notin> {1, 2, 3, 4}"
    and "0 < sint (png_image_width png) \<and> 0 < sint (png_image_height png)
      \<and> 3 * sint (png_image_width png) * sint (png_image_height png) \<le> INT_MAX"
  then show "ReadPNG g libpng data = Inr None"
    using ReadPNG_other_channels [where libpng = libpng and data = data, OF assms] by blast
next
  assume "uint (png_channels png) \<in> {1, 2, 3, 4}
        \<and> 0 < sint (png_image_width png) \<and> 0 < sint (png_image_height png)
        \<and> 3 * sint (png_image_width png) * sint (png_image_height png) \<le> INT_MAX
        \<and> uint (png_channels png) * sint (png_image_width png) \<le> INT_MAX
        \<and> length (png_rows png) = nat (sint (png_image_height png))
        \<and> (\<forall>row \<in> set (png_rows png).
              int (length row) = uint (png_channels png) * sint (png_image_width png))"
  then show "\<exists>rgb'. ReadPNG g libpng data
      = Inr (Some (sint (png_image_width png), sint (png_image_height png), rgb'))"
    using ReadPNG_accepts [where libpng = libpng and data = data and g = g, OF assms]
    by blast
qed


theorem ReadPNG_channel_layouts_witness:
  "ReadPNG default_globals (png_read_png example_extern) []
     = Inr (Some (2, 1, [0, 0, 0, 10, 20, 30]))
   \<and> uint (png_channels example_png) \<in> {1, 2, 3, 4}
   \<and> png_pixel_spec default_globals (uint (png_channels example_png))
         (png_rows example_png ! 0) 1 2 = 30
   \<and> ReadPNG default_globals (\<lambda>_. Some (example_png\<lparr>png_channels := 5\<rparr>)) [] = Inr None
   \<and> (\<exists>rgb'. ReadPNG (default_globals\<lparr>blendOnBlack := False\<rparr>)
               (png_read_png example_extern) []
         = Inr (Some (sint (png_image_width example_png),
                      sint (png_image_height example_png), rgb')))"
proof -
  have a: "png_read_png example_extern [] = Some example_png"
    by (simp add: example_extern_def)
  have ok: "ReadPNG default_globals (png_read_png example_extern) []
     = Inr (Some (2, 1, [0, 0, 0, 10, 20, 30]))"
    by (simp add: example_png_decodes Blend_def default_globals_def BlendOnBlack_def)
  have px: "\<forall>y<nat 1. \<forall>x<nat 2. \<forall>k<3.
      [0, 0, 0, 10, 20, 30] ! (3 * y * nat 2 + 3 * x + k)
        = png_pixel_spec default_globals (uint (png_channels example_png))
            (png_rows example_png ! y) x k"
    and c: "uint (png_channels example_png) \<in> {1, 2, 3, 4}"
    using ReadPNG_channel_layouts [where libpng = "png_read_png example_extern"
        and data = "[]" and g = default_globals and xsize = 2 and ysize = 1
        and rgb = "[0, 0, 0, 10, 20, 30]", OF a] ok
    by blast+
  have "[0, 0, 0, 10, 20, 30 :: uint8_t] ! (3 * 0 * nat 2 + 3 * 1 + 2)
        = png_pixel_spec default_globals (uint (png_channels example_png))
            (png_rows example_png ! 0) 1 2"
    using px [rule_format, of 0 1 2] by simp
  then have p: "png_pixel_spec default_globals (uint (png_channels example_png))
         (png_rows example_png ! 0) 1 2 = 30"
    by simp
  have b: "(\<lambda>_. Some (example_png\<lparr>png_channels := 5\<rparr>)) ([] :: bytes)
      = Some (example_png\<lparr>png_channels := 5\<rparr>)"
    by simp
  have n: "uint (png_channels (example_png\<lparr>png_channels := 5\<rparr>)) \<notin> {1, 2, 3, 4}"
    by simp
  have d: "0 < sint (png_image_width (example_png\<lparr>png_channels := 5\<rparr>))
     \<and> 0 < sint (png_image_height (example_png\<lparr>png_channels := 5\<rparr>))
     \<and> 3 * sint (png_image_width (example_png\<lparr>png_channels := 5\<rparr>))
         * sint (png_image_height (example_png\<lparr>png_channels := 5\<rparr>)) \<le> INT_MAX"
    by (simp add: example_png_def INT_MAX_def)
  have "ReadPNG default_globals (\<lambda>_. Some (example_png\<lparr>png_channels := 5\<rparr>)) [] = Inr None"
    using ReadPNG_channel_layouts [where libpng = "\<lambda>_. Some (example_png\<lparr>png_channels := 5\<rparr>)"
        and data = "[]" and g = default_globals, OF b] n d
    by blast
  moreover have "\<exists>rgb'. ReadPNG (default_globals\<lparr>blendOnBlack := False\<rparr>)
               (png_read_png example_extern) []
         = Inr (Some (sint (png_image_width example_png),
                      sint (png_image_height example_png), rgb'))"
  proof -
    have h: "uint (png_channels example_png) \<in> {1, 2, 3, 4}
        \<and> 0 < sint (png_image_width example_png) \<and> 0 < sint (png_image_height example_png)
        \<and> 3 * sint (png_image_width example_png) * sint (png_image_height example_png)
            \<le> INT_MAX
        \<and> uint (png_channels example_png) * sint (png_image_width example_png) \<le> INT_MAX
        \<and> length (png_rows example_png) = nat (sint (png_image_height example_png))
        \<and> (\<forall>row \<in> set (png_rows example_png).
              int (length row)
                = uint (png_channels example_png) * sint (png_image_width example_png))"
      by (simp add: example_png_def INT_MAX_def)
    show ?thesis
      using ReadPNG_channel_layouts [where libpng = "png_read_png example_extern"
          and data = "[]" and g = "default_globals\<lparr>blendOnBlack := False\<rparr>", OF a] h
      by blast
  qed
  ultimately show ?thesis
    using ok c p by simp
qed

lemma for_loop_length:
  assumes "\<And>i s t. body i s = Inr t \<Longrightarrow> length t = length s"
    and "for_loop n body s = Inr t"
  shows "length t = length s"
  using assms(2)
proof (induction n arbitrary: t)
  case 0
  then show ?case by simp
next
  case (Suc n)
  then obtain mid where "for_loop n body s = Inr mid" "body n mid = Inr t"
    by (auto simp add: bindE_Inr_iff)
  then show ?case
    using Suc.IH [of mid] assms(1) [of n mid t] by simp
qed

lemma ReadTIFF_row3_length:
  assumes "ReadTIFF_row3 pixels npixels behind width xsize y s = Inr t"
  shows "length t = length s"
  using assms unfolding ReadTIFF_row3_def Let_def
  by (auto simp add: bindE_Inr_iff imul_Inr_iff iadd_Inr_iff store_Inr_iff
      elim!: for_loop_length [rotated])

lemma ReadTIFF_pixel4_length:
  assumes "ReadTIFF_pixel4 g pixels npixels behind row_in row_out x s = Inr t"
  shows "length t = length s"
  using assms unfolding ReadTIFF_pixel4_def
  by (auto simp add: bindE_Inr_iff imul_Inr_iff iadd_Inr_iff store_Inr_iff)

lemma ReadTIFF_row4_length:
  assumes "ReadTIFF_row4 g pixels npixels behind width xsize y s = Inr t"
  shows "length t = length s"
  using assms unfolding ReadTIFF_row4_def Let_def
  by (auto simp add: bindE_Inr_iff imul_Inr_iff
      elim!: for_loop_length [rotated] ReadTIFF_pixel4_length)

lemma for_loop_u32_length:
  assumes "\<And>i s t. body i s = Inr t \<Longrightarrow> length t = length s"
    and "for_loop_u32 n body s = Inr t"
  shows "length t = length s"
  using assms(2) for_loop_length [of body _ s t, OF assms(1)]
  by (auto simp add: for_loop_u32_def bindE_Inr_iff split: if_splits)

lemma ReadTIFF_Some:
  assumes "ReadTIFF g libtiff data = Inr (Inr (xsize, ysize, rgb))"
  shows "0 \<le> 3 * xsize * ysize
    \<and> (\<exists>tif pixels row.
          libtiff data = Some tif \<and> tiff_RGBAImage tif = Some pixels
          \<and> xsize = sint (tiff_IMAGEWIDTH tif) \<and> ysize = sint (tiff_IMAGELENGTH tif)
          \<and> (row = ReadTIFF_row3 pixels (unat (tiff_IMAGEWIDTH tif * tiff_IMAGELENGTH tif))
                       (tiff_byte_behind_raster tif) (tiff_IMAGEWIDTH tif) xsize
               \<or> row = ReadTIFF_row4 g pixels
                          (unat (tiff_IMAGEWIDTH tif * tiff_IMAGELENGTH tif))
                          (tiff_byte_behind_raster tif) (tiff_IMAGEWIDTH tif) xsize)
          \<and> for_loop_u32 (tiff_IMAGELENGTH tif) row
                (replicate (nat (3 * xsize * ysize)) 0) = Inr rgb)"
proof -
  from assms obtain tif where tif: "libtiff data = Some tif"
    by (auto simp add: ReadTIFF_def split: option.splits)
  from assms tif obtain pixels where pixels: "tiff_RGBAImage tif = Some pixels"
    by (auto simp add: ReadTIFF_def Let_def split: option.splits)
  let ?w = "sint (tiff_IMAGEWIDTH tif)" and ?h = "sint (tiff_IMAGELENGTH tif)"
  let ?n = "unat (tiff_IMAGEWIDTH tif * tiff_IMAGELENGTH tif)"
  define A where "A = bindE (bindE (imul 3 ?w) (\<lambda>t. imul t ?h)) resize"
  define K :: "bytes \<Rightarrow> fault + (string + int \<times> int \<times> bytes)" where "K = (\<lambda>rgb0.
         if tiff_SAMPLESPERPIXEL tif \<noteq> 4 then
           bindE (for_loop_u32 (tiff_IMAGELENGTH tif)
                    (ReadTIFF_row3 pixels ?n (tiff_byte_behind_raster tif)
                       (tiff_IMAGEWIDTH tif) ?w) rgb0)
             (\<lambda>rgb. Inr (Inr (?w, ?h, rgb)))
         else
           bindE (for_loop_u32 (tiff_IMAGELENGTH tif)
                    (ReadTIFF_row4 g pixels ?n (tiff_byte_behind_raster tif)
                       (tiff_IMAGEWIDTH tif) ?w) rgb0)
             (\<lambda>rgb. Inr (Inr (?w, ?h, rgb))))"
  have "ReadTIFF g libtiff data = bindE A K"
    unfolding A_def K_def using tif pixels by (simp add: ReadTIFF_def Let_def)
  with assms have "bindE A K = Inr (Inr (xsize, ysize, rgb))"
    by simp
  then obtain rgb0 where alloc: "A = Inr rgb0" and rest: "K rgb0 = Inr (Inr (xsize, ysize, rgb))"
    by (cases A) simp_all
  note alloc = alloc [unfolded A_def] and rest = rest [unfolded K_def]
  from alloc have nn: "0 \<le> 3 * ?w * ?h" and rgb0: "rgb0 = replicate (nat (3 * ?w * ?h)) 0"
    by (auto simp add: bindE_Inr_iff imul_Inr_iff resize_Inr_iff)
  from rest have dims: "xsize = ?w" "ysize = ?h"
    by (auto simp add: bindE_Inr_iff split: if_splits)
  from rest have run: "for_loop_u32 (tiff_IMAGELENGTH tif)
        (ReadTIFF_row3 pixels ?n (tiff_byte_behind_raster tif) (tiff_IMAGEWIDTH tif) ?w)
        rgb0 = Inr rgb
      \<or> for_loop_u32 (tiff_IMAGELENGTH tif)
        (ReadTIFF_row4 g pixels ?n (tiff_byte_behind_raster tif) (tiff_IMAGEWIDTH tif) ?w)
        rgb0 = Inr rgb"
    by (auto simp add: bindE_Inr_iff split: if_splits)
  show ?thesis
    using tif pixels nn rgb0 dims run by blast
qed

lemma pixel_byte_total:
  assumes "i < npixels" "npixels \<le> length pixels"
  shows "\<exists>v. pixel_byte pixels npixels behind i 0 = Inr v"
    and "\<exists>v. pixel_byte pixels npixels behind i 1 = Inr v"
    and "\<exists>v. pixel_byte pixels npixels behind i 2 = Inr v"
    and "\<exists>v. pixel_byte pixels npixels behind i 4 = Inr v"
  using assms by (auto simp add: pixel_byte_def Let_def)

lemma ReadTIFF_pixel4_total:
  assumes "0 \<le> b" "int x < w" "b + 3 * w \<le> int (length s)" "int (length s) \<le> INT_MAX"
    and "row_in + x < npixels" "npixels \<le> length pixels"
  shows "\<exists>u. ReadTIFF_pixel4 g pixels npixels behind row_in b x s = Inr u
    \<and> length u = length s"
proof -
  from pixel_byte_total [OF assms(5,6), of behind] obtain v0 v1 v2 a where
    "pixel_byte pixels npixels behind (row_in + x) 0 = Inr v0"
    "pixel_byte pixels npixels behind (row_in + x) 1 = Inr v1"
    "pixel_byte pixels npixels behind (row_in + x) 2 = Inr v2"
    "pixel_byte pixels npixels behind (row_in + x) 4 = Inr a"
    by blast
  then show ?thesis
    using assms(1-4)
    by (simp add: ReadTIFF_pixel4_def imul_def iadd_def int32_def store_def Let_def
        INT_MIN_def INT_MAX_def)
qed

lemma ReadTIFF_row3_body_total:
  assumes "0 \<le> b" "int x < w" "b + 3 * w \<le> int (length s)" "int (length s) \<le> INT_MAX"
    and "row_in + x < npixels" "npixels \<le> length pixels"
  shows "\<exists>u. bindE (imul 3 (int x)) (\<lambda>x3.
           bindE (bindE (pixel_byte pixels npixels behind (row_in + x) 0) (\<lambda>v.
                  bindE (iadd x3 0) (\<lambda>off. store b off v s))) (\<lambda>rgb.
           bindE (bindE (pixel_byte pixels npixels behind (row_in + x) 1) (\<lambda>v.
                  bindE (iadd x3 1) (\<lambda>off. store b off v rgb))) (\<lambda>rgb.
           bindE (pixel_byte pixels npixels behind (row_in + x) 2) (\<lambda>v.
                  bindE (iadd x3 2) (\<lambda>off. store b off v rgb))))) = Inr u
    \<and> length u = length s"
proof -
  from pixel_byte_total [OF assms(5,6), of behind] obtain v0 v1 v2 where
    "pixel_byte pixels npixels behind (row_in + x) 0 = Inr v0"
    "pixel_byte pixels npixels behind (row_in + x) 1 = Inr v1"
    "pixel_byte pixels npixels behind (row_in + x) 2 = Inr v2"
    by blast
  then show ?thesis
    using assms(1-4)
    by (simp add: imul_def iadd_def int32_def store_def Let_def INT_MIN_def INT_MAX_def)
qed

lemma ReadTIFF_row_total:
  assumes row: "row = ReadTIFF_row3 pixels npixels behind width xsize
      \<or> row = ReadTIFF_row4 g pixels npixels behind width xsize"
    and pos: "0 < xsize"
    and room: "3 * int y * xsize + 3 * xsize \<le> int (length s)"
    and small: "int (length s) \<le> INT_MAX"
    and inside: "unat (word_of_nat y * width) + nat xsize \<le> npixels"
    and raster: "npixels \<le> length pixels"
  shows "\<exists>t. row y s = Inr t \<and> length t = length s"
proof -
  let ?b = "3 * int y * xsize"
  let ?r = "unat (word_of_nat y * width)"
  have "3 * int y * 1 \<le> 3 * int y * xsize"
    using pos by (intro mult_left_mono) simp_all
  then have y3: "3 * int y \<le> ?b"
    by simp
  have b0: "0 \<le> ?b"
    using pos by simp
  have bmax: "?b \<le> INT_MAX" "3 * int y \<le> INT_MAX"
    using y3 room small pos b0 by linarith+
  have bmin: "INT_MIN \<le> ?b" "INT_MIN \<le> 3 * int y"
    using b0 unfolding INT_MIN_def by linarith+
  have base: "bindE (imul 3 (int y)) (\<lambda>t. imul t xsize) = Inr ?b"
    using bmax bmin by (simp add: imul_def int32_def)
  have xw: "int x < xsize" and xin: "?r + x < npixels" if "x < nat xsize" for x
    using that inside by linarith+
  from row show ?thesis
  proof
    assume r: "row = ReadTIFF_row3 pixels npixels behind width xsize"
    show ?thesis
      unfolding r ReadTIFF_row3_def Let_def base bindE_simps
      apply (rule for_loop_total [OF _ refl])
      subgoal for i sa
        using ReadTIFF_row3_body_total [where b = ?b and x = i and w = xsize and s = sa
            and row_in = ?r and npixels = npixels and pixels = pixels and behind = behind]
          b0 xw [of i] xin [of i] room small raster
        by simp
      done
  next
    assume r: "row = ReadTIFF_row4 g pixels npixels behind width xsize"
    show ?thesis
      unfolding r ReadTIFF_row4_def Let_def base bindE_simps
      apply (rule for_loop_total [OF _ refl])
      subgoal for i sa
        using ReadTIFF_pixel4_total [where b = ?b and x = i and w = xsize and s = sa
            and row_in = ?r and npixels = npixels and pixels = pixels and behind = behind
            and g = g]
          b0 xw [of i] xin [of i] room small raster
        by simp
      done
  qed
qed

lemma sint_pos_unat:
  fixes w :: "32 word"
  assumes "0 < sint w"
  shows "sint w = int (unat w)"
proof -
  have "sint w < 2 ^ 32"
    using sint_lt [of w] by simp
  then have "take_bit 32 (sint w) = sint w"
    using assms by (intro take_bit_int_eq_self) simp_all
  moreover have "uint w = take_bit 32 (sint w)"
    using uint_sint [of w] by simp
  moreover have "uint w = int (unat w)"
    by (rule uint_nat)
  ultimately show ?thesis
    by linarith
qed

lemma unat_row_start:
  fixes w :: "32 word"
  assumes "y * unat w < 2 ^ 32" "y < 2 ^ 32"
  shows "unat (word_of_nat y * w) = y * unat w"
proof -
  have y: "unat (word_of_nat y :: 32 word) = y"
    using assms(2) by (simp add: unat_of_nat)
  have "unat (word_of_nat y :: 32 word) * unat w < 2 ^ LENGTH(32)"
    using assms(1) by (simp only: y) simp
  from unat_mult_lem [THEN iffD1, OF this] show ?thesis
    by (simp only: y)
qed

lemma ReadTIFF_accepts:
  assumes tif: "libtiff data = Some tif" and raster: "tiff_RGBAImage tif = Some pixels"
    and pos: "0 < sint (tiff_IMAGEWIDTH tif)" "0 < sint (tiff_IMAGELENGTH tif)"
    and fit: "3 * sint (tiff_IMAGEWIDTH tif) * sint (tiff_IMAGELENGTH tif) \<le> INT_MAX"
    and len: "length pixels = unat (tiff_IMAGEWIDTH tif * tiff_IMAGELENGTH tif)"
  shows "\<exists>rgb. ReadTIFF g libtiff data
    = Inr (Inr (sint (tiff_IMAGEWIDTH tif), sint (tiff_IMAGELENGTH tif), rgb))"
proof -
  let ?w = "tiff_IMAGEWIDTH tif" and ?h = "tiff_IMAGELENGTH tif"
  let ?W = "sint ?w" and ?H = "sint ?h"
  let ?n = "unat (?w * ?h)" and ?behind = "tiff_byte_behind_raster tif"
  let ?rgb0 = "replicate (nat (3 * ?W * ?H)) (0 :: uint8_t)"
  have W: "?W = int (unat ?w)"
    using pos(1) by (rule sint_pos_unat)
  have H: "?H = int (unat ?h)"
    using pos(2) by (rule sint_pos_unat)
  have "3 * ?W * 1 \<le> 3 * ?W * ?H"
    using pos by (intro mult_left_mono) simp_all
  then have w3: "3 * ?W \<le> 3 * ?W * ?H"
    by simp
  have nn: "0 \<le> 3 * ?W * ?H"
    using pos by simp
  have r: "INT_MIN \<le> 3 * ?W" "3 * ?W \<le> INT_MAX" "INT_MIN \<le> 3 * ?W * ?H"
    using w3 nn fit pos(1) unfolding INT_MIN_def by linarith+
  have alloc: "bindE (bindE (imul 3 ?W) (\<lambda>t. imul t ?H)) resize = Inr ?rgb0"
    using r fit nn by (simp add: imul_def int32_def resize_def)
  have L: "int (length ?rgb0) = 3 * ?W * ?H"
    using nn by simp
  have WH: "?W * ?H \<le> INT_MAX"
    using fit pos by (simp add: INT_MAX_def)
  have "int (unat ?w * unat ?h) = ?W * ?H"
    by (simp only: W H of_nat_mult)
  then have "int (unat ?w * unat ?h) \<le> 2147483647"
    using WH unfolding INT_MAX_def by linarith
  then have small_n': "unat ?w * unat ?h \<le> 2147483647"
    by (simp only: of_nat_le_iff [symmetric, where ?'a = int] of_nat_numeral)
  then have small_n: "unat ?w * unat ?h < 2 ^ 32"
    by simp
  then have n: "?n = unat ?w * unat ?h"
    using unat_mult_lem [of ?w ?h] by simp
  have hmax: "int (unat ?h) \<le> INT_MAX"
    using sint_lt [of ?h] H by (simp add: INT_MAX_def)
  have loop: "\<exists>t. for_loop (unat ?h) row ?rgb0 = Inr t \<and> length t = length ?rgb0"
    if row: "row = ReadTIFF_row3 pixels ?n ?behind ?w ?W
        \<or> row = ReadTIFF_row4 g pixels ?n ?behind ?w ?W" for row
  proof (rule for_loop_total [OF _ refl])
    fix y and s :: bytes
    assume y: "y < unat ?h" and s: "length s = length ?rgb0"
    have "(y + 1) * unat ?w \<le> unat ?h * unat ?w"
      using y by (intro mult_right_mono) simp_all
    then have yw: "y * unat ?w + unat ?w \<le> unat ?w * unat ?h"
      by (simp add: algebra_simps)
    have "y * unat ?w \<le> 2147483647"
      using yw small_n' by linarith
    then have "y * unat ?w < 2 ^ 32"
      by simp
    moreover have "y \<le> 2147483647"
      using y hmax unfolding INT_MAX_def by linarith
    then have "y < 2 ^ 32"
      by simp
    ultimately have start: "unat (word_of_nat y * ?w) = y * unat ?w"
      by (rule unat_row_start)
    have inside: "unat (word_of_nat y * ?w) + nat ?W \<le> ?n"
      using yw by (simp only: start n W nat_int)
    have "(int y + 1) * ?W \<le> ?H * ?W"
      using y pos(1) H by (intro mult_right_mono) linarith+
    then have "3 * int y * ?W + 3 * ?W \<le> 3 * ?W * ?H"
      by (simp add: algebra_simps)
    then have room: "3 * int y * ?W + 3 * ?W \<le> int (length s)"
      using L s by simp
    have small: "int (length s) \<le> INT_MAX"
      using L s fit by simp
    have rasterlen: "?n \<le> length pixels"
      using len by simp
    show "\<exists>t. row y s = Inr t \<and> length t = length ?rgb0"
      using ReadTIFF_row_total [OF row pos(1) room small inside rasterlen] s by simp
  qed
  show ?thesis
  proof (cases "tiff_SAMPLESPERPIXEL tif \<noteq> 4")
    case True
    from loop [of "ReadTIFF_row3 pixels ?n ?behind ?w ?W"] obtain t where
      "for_loop (unat ?h) (ReadTIFF_row3 pixels ?n ?behind ?w ?W) ?rgb0 = Inr t"
      by auto
    then show ?thesis
      using tif raster True hmax unfolding ReadTIFF_def
      by (simp add: Let_def alloc for_loop_u32_def)
  next
    case False
    from loop [of "ReadTIFF_row4 g pixels ?n ?behind ?w ?W"] obtain t where
      "for_loop (unat ?h) (ReadTIFF_row4 g pixels ?n ?behind ?w ?W) ?rgb0 = Inr t"
      by auto
    then show ?thesis
      using tif raster False hmax unfolding ReadTIFF_def
      by (simp add: Let_def alloc for_loop_u32_def)
  qed
qed

text \<open>
  C5: whenever \<^verbatim>\<open>ReadPNG\<close> or \<^verbatim>\<open>ReadTIFF\<close> returns true, the pixel buffer it hands back
  has exactly \<open>3 * xsize * ysize\<close> bytes, \<open>xsize\<close> and \<open>ysize\<close> being the dimensions it
  hands back. Both do return true, with the image's dimensions, on what the libraries
  hand over: for TIFF, with three or with four samples per pixel, positive dimensions
  whose buffer size fits an \<^verbatim>\<open>int\<close> and a raster of width times height elements; for
  PNG, 1 to 4 channels, positive dimensions, and one row of channels times width bytes
  per line, where buffer and row size fit an \<^verbatim>\<open>int\<close>.
\<close>

theorem decoded_buffer_length:
  "(ReadPNG g libpng data = Inr (Some (xsize, ysize, rgb))
      \<longrightarrow> int (length rgb) = 3 * xsize * ysize)
   \<and> (ReadTIFF g libtiff data = Inr (Inr (xsize, ysize, rgb))
      \<longrightarrow> int (length rgb) = 3 * xsize * ysize)
   \<and> (libtiff data = Some tif \<and> tiff_RGBAImage tif = Some pixels
        \<and> 0 < sint (tiff_IMAGEWIDTH tif) \<and> 0 < sint (tiff_IMAGELENGTH tif)
        \<and> 3 * sint (tiff_IMAGEWIDTH tif) * sint (tiff_IMAGELENGTH tif) \<le> INT_MAX
        \<and> length pixels = unat (tiff_IMAGEWIDTH tif * tiff_IMAGELENGTH tif)
      \<longrightarrow> (\<exists>rgb'. ReadTIFF g libtiff data
              = Inr (Inr (sint (tiff_IMAGEWIDTH tif), sint (tiff_IMAGELENGTH tif), rgb'))
            \<and> int (length rgb')
              = 3 * sint (tiff_IMAGEWIDTH tif) * sint (tiff_IMAGELENGTH tif)))
   \<and> (libpng data = Some png \<and> uint (png_channels png) \<in> {1, 2, 3, 4}
        \<and> 0 < sint (png_image_width png) \<and> 0 < sint (png_image_height png)
        \<and> 3 * sint (png_image_width png) * sint (png_image_height png) \<le> INT_MAX
        \<and> uint (png_channels png) * sint (png_image_width png) \<le> INT_MAX
        \<and> length (png_rows png) = nat (sint (png_image_height png))
        \<and> (\<forall>row \<in> set (png_rows png).
              int (length row) = uint (png_channels png) * sint (png_image_width png))
      \<longrightarrow> (\<exists>rgb'. ReadPNG g libpng data
              = Inr (Some (sint (png_image_width png), sint (png_image_height png), rgb'))
            \<and> int (length rgb')
              = 3 * sint (png_image_width png) * sint (png_image_height png)))"
proof -
  have png_len: "int (length rgb) = 3 * xsize * ysize"
    if ok: "ReadPNG g libpng data = Inr (Some (xsize, ysize, rgb))" for xsize ysize rgb
  proof -
    from ok obtain png where png: "libpng data = Some png"
      by (auto simp add: ReadPNG_def split: option.splits)
    note S = ReadPNG_Some [where libpng = libpng and data = data, OF png ok]
    then obtain row where
      row: "uint (png_channels png) = 1 \<and> row = ReadPNG_row1 (png_rows png) xsize
          \<or> uint (png_channels png) = 2 \<and> row = ReadPNG_row2 g (png_rows png) xsize
          \<or> uint (png_channels png) = 3 \<and> row = ReadPNG_row3 (png_rows png) xsize
          \<or> uint (png_channels png) = 4 \<and> row = ReadPNG_row4 g (png_rows png) xsize"
      and run: "for_loop (nat ysize) row (replicate (nat (3 * xsize * ysize)) 0) = Inr rgb"
      by blast
    from S have nn: "0 \<le> 3 * xsize * ysize"
      by blast
    have "length rgb = length (replicate (nat (3 * xsize * ysize)) (0 :: uint8_t))"
      using ReadPNG_rows_ok [OF row run] by blast
    then have "length rgb = nat (3 * xsize * ysize)"
      by (simp only: length_replicate)
    then show ?thesis
      using nn by linarith
  qed
  have tiff_len: "int (length rgb) = 3 * xsize * ysize"
    if ok: "ReadTIFF g libtiff data = Inr (Inr (xsize, ysize, rgb))" for xsize ysize rgb
  proof -
    from ReadTIFF_Some [OF ok] obtain height row where nn: "0 \<le> 3 * xsize * ysize"
      and run: "for_loop_u32 height row (replicate (nat (3 * xsize * ysize)) 0) = Inr rgb"
      and row: "(\<exists>pixels npixels behind width.
                  row = ReadTIFF_row3 pixels npixels behind width xsize)
        \<or> (\<exists>pixels npixels behind width.
                  row = ReadTIFF_row4 g pixels npixels behind width xsize)"
      by blast
    have body: "length t = length s" if "row i s = Inr t" for i s t
      using row that ReadTIFF_row3_length ReadTIFF_row4_length by blast
    have "length rgb = length (replicate (nat (3 * xsize * ysize)) (0 :: uint8_t))"
      using for_loop_u32_length [OF body run] .
    then have "length rgb = nat (3 * xsize * ysize)"
      by (simp only: length_replicate)
    then show ?thesis
      using nn by linarith
  qed
  have tiff_total: "\<exists>rgb'. ReadTIFF g libtiff data
              = Inr (Inr (sint (tiff_IMAGEWIDTH tif), sint (tiff_IMAGELENGTH tif), rgb'))
            \<and> int (length rgb')
              = 3 * sint (tiff_IMAGEWIDTH tif) * sint (tiff_IMAGELENGTH tif)"
    if "libtiff data = Some tif \<and> tiff_RGBAImage tif = Some pixels
        \<and> 0 < sint (tiff_IMAGEWIDTH tif) \<and> 0 < sint (tiff_IMAGELENGTH tif)
        \<and> 3 * sint (tiff_IMAGEWIDTH tif) * sint (tiff_IMAGELENGTH tif) \<le> INT_MAX
        \<and> length pixels = unat (tiff_IMAGEWIDTH tif * tiff_IMAGELENGTH tif)"
  proof -
    from that ReadTIFF_accepts [where libtiff = libtiff and data = data and tif = tif
        and pixels = pixels and g = g]
    obtain rgb' where "ReadTIFF g libtiff data
        = Inr (Inr (sint (tiff_IMAGEWIDTH tif), sint (tiff_IMAGELENGTH tif), rgb'))"
      by blast
    then show ?thesis
      using tiff_len by blast
  qed
  have png_total: "\<exists>rgb'. ReadPNG g libpng data
              = Inr (Some (sint (png_image_width png), sint (png_image_height png), rgb'))
            \<and> int (length rgb')
              = 3 * sint (png_image_width png) * sint (png_image_height png)"
    if "libpng data = Some png \<and> uint (png_channels png) \<in> {1, 2, 3, 4}
        \<and> 0 < sint (png_image_width png) \<and> 0 < sint (png_image_height png)
        \<and> 3 * sint (png_image_width png) * sint (png_image_height png) \<le> INT_MAX
        \<and> uint (png_channels png) * sint (png_image_width png) \<le> INT_MAX
        \<and> length (png_rows png) = nat (sint (png_image_height png))
        \<and> (\<forall>row \<in> set (png_rows png).
              int (length row) = uint (png_channels png) * sint (png_image_width png))"
  proof -
    from that ReadPNG_accepts [where libpng = libpng and data = data and png = png
        and g = g]
    obtain rgb' where "ReadPNG g libpng data
        = Inr (Some (sint (png_image_width png), sint (png_image_height png), rgb'))"
      by blast
    then show ?thesis
      using png_len by blast
  qed
  show ?thesis
    using png_len tiff_len tiff_total png_total by blast
qed

theorem decoded_buffer_length_witness:
  "ReadPNG default_globals (png_read_png example_extern) []
     = Inr (Some (2, 1, [0, 0, 0, 10, 20, 30]))
   \<and> int (length [0, 0, 0, 10, 20, 30 :: uint8_t]) = 3 * 2 * 1
   \<and> ReadTIFF default_globals (TIFFClientOpen example_extern) []
     = Inr (Inr (2, 1, [200, 100, 50, 10, 20, 30]))
   \<and> int (length [200, 100, 50, 10, 20, 30 :: uint8_t]) = 3 * 2 * 1
   \<and> ReadTIFF default_globals (\<lambda>_. Some opaque_rgba_tiff) []
     = Inr (Inr (2, 1, [4, 4, 4, 0, 0, 0]))
   \<and> int (length [4, 4, 4, 0, 0, 0 :: uint8_t]) = 3 * 2 * 1
   \<and> (\<exists>rgb'. ReadTIFF (default_globals\<lparr>blendOnBlack := False\<rparr>)
                (\<lambda>_. Some opaque_rgba_tiff) []
              = Inr (Inr (sint (tiff_IMAGEWIDTH opaque_rgba_tiff),
                          sint (tiff_IMAGELENGTH opaque_rgba_tiff), rgb'))
            \<and> int (length rgb')
              = 3 * sint (tiff_IMAGEWIDTH opaque_rgba_tiff)
                  * sint (tiff_IMAGELENGTH opaque_rgba_tiff))
   \<and> (\<exists>rgb'. ReadPNG (default_globals\<lparr>blendOnBlack := False\<rparr>)
                (png_read_png example_extern) []
              = Inr (Some (sint (png_image_width example_png),
                           sint (png_image_height example_png), rgb'))
            \<and> int (length rgb')
              = 3 * sint (png_image_width example_png)
                  * sint (png_image_height example_png))"
proof -
  have p: "ReadPNG default_globals (png_read_png example_extern) []
     = Inr (Some (2, 1, [0, 0, 0, 10, 20, 30]))"
    by (simp add: example_png_decodes Blend_def default_globals_def BlendOnBlack_def)
  have t: "ReadTIFF default_globals (TIFFClientOpen example_extern) []
     = Inr (Inr (2, 1, [200, 100, 50, 10, 20, 30]))"
    by (simp add: example_tiff_decodes)
  have t4: "ReadTIFF default_globals (\<lambda>_. Some opaque_rgba_tiff) []
     = Inr (Inr (2, 1, [4, 4, 4, 0, 0, 0]))"
    by code_simp
  have lp: "int (length [0, 0, 0, 10, 20, 30 :: uint8_t]) = 3 * 2 * 1"
    using decoded_buffer_length [where g = default_globals
        and libpng = "png_read_png example_extern" and data = "[]" and xsize = 2
        and ysize = 1 and rgb = "[0, 0, 0, 10, 20, 30]"] p
    by blast
  have lt: "int (length [200, 100, 50, 10, 20, 30 :: uint8_t]) = 3 * 2 * 1"
    using decoded_buffer_length [where g = default_globals
        and libtiff = "TIFFClientOpen example_extern" and data = "[]" and xsize = 2
        and ysize = 1 and rgb = "[200, 100, 50, 10, 20, 30]"] t
    by blast
  have lt4: "int (length [4, 4, 4, 0, 0, 0 :: uint8_t]) = 3 * 2 * 1"
    using decoded_buffer_length [where g = default_globals
        and libtiff = "\<lambda>_. Some opaque_rgba_tiff" and data = "[]" and xsize = 2
        and ysize = 1 and rgb = "[4, 4, 4, 0, 0, 0]"] t4
    by blast
  have ht: "(\<lambda>_. Some opaque_rgba_tiff) ([] :: bytes) = Some opaque_rgba_tiff
        \<and> tiff_RGBAImage opaque_rgba_tiff = Some [0xFF646464, 0xFF1E140A]
        \<and> 0 < sint (tiff_IMAGEWIDTH opaque_rgba_tiff)
        \<and> 0 < sint (tiff_IMAGELENGTH opaque_rgba_tiff)
        \<and> 3 * sint (tiff_IMAGEWIDTH opaque_rgba_tiff)
            * sint (tiff_IMAGELENGTH opaque_rgba_tiff) \<le> INT_MAX
        \<and> length [0xFF646464, 0xFF1E140A :: uint32]
            = unat (tiff_IMAGEWIDTH opaque_rgba_tiff * tiff_IMAGELENGTH opaque_rgba_tiff)"
    by (simp add: opaque_rgba_tiff_def INT_MAX_def)
  have et: "\<exists>rgb'. ReadTIFF (default_globals\<lparr>blendOnBlack := False\<rparr>)
                (\<lambda>_. Some opaque_rgba_tiff) []
              = Inr (Inr (sint (tiff_IMAGEWIDTH opaque_rgba_tiff),
                          sint (tiff_IMAGELENGTH opaque_rgba_tiff), rgb'))
            \<and> int (length rgb')
              = 3 * sint (tiff_IMAGEWIDTH opaque_rgba_tiff)
                  * sint (tiff_IMAGELENGTH opaque_rgba_tiff)"
    using decoded_buffer_length [where g = "default_globals\<lparr>blendOnBlack := False\<rparr>"
        and libtiff = "\<lambda>_. Some opaque_rgba_tiff" and data = "[]"
        and tif = opaque_rgba_tiff and pixels = "[0xFF646464, 0xFF1E140A]"] ht
    by blast
  have hp: "png_read_png example_extern [] = Some example_png
        \<and> uint (png_channels example_png) \<in> {1, 2, 3, 4}
        \<and> 0 < sint (png_image_width example_png) \<and> 0 < sint (png_image_height example_png)
        \<and> 3 * sint (png_image_width example_png) * sint (png_image_height example_png)
            \<le> INT_MAX
        \<and> uint (png_channels example_png) * sint (png_image_width example_png) \<le> INT_MAX
        \<and> length (png_rows example_png) = nat (sint (png_image_height example_png))
        \<and> (\<forall>row \<in> set (png_rows example_png).
              int (length row)
                = uint (png_channels example_png) * sint (png_image_width example_png))"
    by (simp add: example_extern_def example_png_def INT_MAX_def)
  have ep: "\<exists>rgb'. ReadPNG (default_globals\<lparr>blendOnBlack := False\<rparr>)
                (png_read_png example_extern) []
              = Inr (Some (sint (png_image_width example_png),
                           sint (png_image_height example_png), rgb'))
            \<and> int (length rgb')
              = 3 * sint (png_image_width example_png)
                  * sint (png_image_height example_png)"
    using decoded_buffer_length [where g = "default_globals\<lparr>blendOnBlack := False\<rparr>"
        and libpng = "png_read_png example_extern" and data = "[]"
        and png = example_png] hp
    by blast
  show ?thesis
    using p lp t lt t4 lt4 et ep by blast
qed

text \<open>
  C2: in the branch for four samples per pixel the alpha is specified to be the 4th byte
  of the pixel, \<^verbatim>\<open>pixel[3]\<close>; \<^verbatim>\<open>ReadTIFF\<close> reads \<^verbatim>\<open>pixel[4]\<close>, the first byte of the next
  pixel. On the opaque 2 x 1 image the first pixel (100, 100, 100, alpha 255) is
  composited against 10, the red byte of the second pixel, and comes out as (4, 4, 4)
  instead of (100, 100, 100); the last pixel (10, 20, 30, alpha 255) is composited
  against the byte behind the raster, here 0, and comes out as (0, 0, 0).
\<close>

theorem ReadTIFF_alpha_is_next_byte:
  "ReadTIFF_pixel4 default_globals [0xFF646464, 0xFF1E140A] 2 0 0 0 0 [0, 0, 0, 0, 0, 0]
     = Inr [4, 4, 4, 0, 0, 0]
   \<and> Blend default_globals 100 255 = 100
   \<and> ReadTIFF default_globals (\<lambda>_. Some opaque_rgba_tiff) []
       = Inr (Inr (2, 1, [4, 4, 4, 0, 0, 0]))"
  by code_simp

end
